theory Spec2Isabelle
  imports Main "HOL-Library.Word"
begin

section \<open>The per-record column text cache of the packet list\<close>

text \<open>
  A shallow embedding of \<^verbatim>\<open>ui/qt/models/packet_list_record.cpp\<close>: the members of one
  \<^verbatim>\<open>PacketListRecord\<close>, the frame data it points to, the two static members shared
  by all records, and the functions \<^verbatim>\<open>columnString\<close>, \<^verbatim>\<open>resetColumns\<close>,
  \<^verbatim>\<open>resetColorized\<close>, \<^verbatim>\<open>dissect\<close> and \<^verbatim>\<open>cacheColumnStrings\<close>.
  The functions of libwireshark that the file calls (record source, dissector, column
  fillers, colour filters) are parameters, collected in the record \<open>env\<close>.
\<close>

subsection \<open>Data\<close>

text \<open>
  \<^verbatim>\<open>column_info\<close>: the column count and, per column, the text pointer
  \<^verbatim>\<open>columns[i].col_data\<close> and the raw value \<^verbatim>\<open>col_expr.col_expr_val[i]\<close>
  (\<open>None\<close> is the null pointer). \<^verbatim>\<open>col_data\<close> is read by the source without a
  null check, so it is a string here.
\<close>

record column_info =
  num_cols :: int
  col_data :: "int \<Rightarrow> string"
  col_expr_val :: "int \<Rightarrow> string option"

record capture_file =
  cinfo :: column_info

text \<open>
  \<^verbatim>\<open>frame_data\<close>: the frame number stands for the metadata of the record; the
  colour filter is a pointer (\<open>None\<close> is \<^verbatim>\<open>NULL\<close>).
\<close>

record frame_data =
  num :: nat
  color_filter :: "nat option"
  need_colorize :: bool

text \<open>The dissection handle \<^verbatim>\<open>epan_dissect_t\<close>, as far as this file sets it up.\<close>

record epan_dissect =
  create_proto_tree :: bool
  color_primed :: bool
  custom_primed :: bool

text \<open>What one run of the dissector leaves behind.\<close>

record dissection =
  d_fdata :: frame_data
  d_col_data :: "int \<Rightarrow> string"
  d_col_expr_val :: "int \<Rightarrow> string option"
  d_pinfo :: nat

text \<open>
  The calls to the record source and to the dissector are logged, in order:
  \<open>Read_record\<close> for \<^verbatim>\<open>cf_read_record_r\<close>, and \<open>Dissect_run edt with_columns\<close>
  for \<^verbatim>\<open>epan_dissect_run\<close> with the handle it was given and whether its
  \<^verbatim>\<open>cinfo\<close> argument was non-null.
\<close>

datatype event =
  Read_record
  | Dissect_run epan_dissect bool

text \<open>
  The functions of libwireshark called by this file. \<^verbatim>\<open>cf_read_record_r\<close> says
  whether the record of the frame could be read; the record it reads is determined by
  the frame, so the dissector is given the frame data. The column fillers write text
  into \<^verbatim>\<open>col_data\<close> only (the source passes \<^verbatim>\<open>FALSE\<close> for
  \<^verbatim>\<open>fill_col_exprs\<close>): a filler returns, per column, the text it writes there, or
  \<open>None\<close> when it leaves that column as it is. None of them changes \<^verbatim>\<open>num_cols\<close>.
  \<^verbatim>\<open>epan_dissect_run\<close> returns what it leaves behind: the frame data (with the colour
  filter it found), the column texts and raw values (used when its \<^verbatim>\<open>cinfo\<close> argument
  is non-null) and the packet info that \<^verbatim>\<open>find_conversation_pinfo\<close> looks up.
\<close>

record env =
  cf_read_record_r :: "frame_data \<Rightarrow> bool"
  color_filters_used :: bool
  have_custom_cols :: "column_info \<Rightarrow> bool"
  have_field_extractors :: bool
  get_column_resolved :: "int \<Rightarrow> bool"
  col_based_on_frame_data :: "column_info \<Rightarrow> int \<Rightarrow> bool"
  col_fill_in_error :: "column_info \<Rightarrow> frame_data \<Rightarrow> int \<Rightarrow> string option"
  col_fill_in_frame_data :: "frame_data \<Rightarrow> column_info \<Rightarrow> int \<Rightarrow> string option"
  epan_dissect_run :: "epan_dissect \<Rightarrow> frame_data \<Rightarrow> column_info option \<Rightarrow> dissection"
  epan_dissect_fill_in_columns :: "dissection \<Rightarrow> column_info \<Rightarrow> int \<Rightarrow> string option"
  find_conversation_pinfo :: "nat \<Rightarrow> nat option"

text \<open>
  The state: the members of one \<^verbatim>\<open>PacketListRecord\<close> (\<open>col_text\<close> to \<open>conv\<close>;
  \<^verbatim>\<open>col_text_\<close> is a pointer to a list of \<^verbatim>\<open>const char *\<close>), the frame data
  behind \<^verbatim>\<open>fdata_\<close> (asserted non-null by the source), the two static members
  \<^verbatim>\<open>cinfo_column_\<close> and \<^verbatim>\<open>col_data_ver_\<close>, the string pool behind
  \<^verbatim>\<open>string_cache_pool_\<close>, and the log of external calls. \<^verbatim>\<open>col_data_ver_\<close> is
  an \<^verbatim>\<open>unsigned\<close>, 32 bits wide; \<^verbatim>\<open>data_ver_\<close>, which is compared with it and
  assigned from it, has the same width here.
\<close>

record state =
  col_text :: "string option list option"
  lines :: int
  line_count_changed :: bool
  data_ver :: "32 word"
  colorized :: bool
  conv :: "nat option"
  fdata :: frame_data
  cinfo_column :: "int \<rightharpoonup> int"
  col_data_ver :: "32 word"
  string_cache_pool :: "string list"
  trace :: "event list"

subsection \<open>Construction\<close>

text \<open>
  The constructor \<^verbatim>\<open>PacketListRecord(frameData, string_cache_pool)\<close>; the static
  members, the pool and the log are those of the surrounding session.
\<close>

definition PacketListRecord ::
  "frame_data \<Rightarrow> (int \<rightharpoonup> int) \<Rightarrow> 32 word \<Rightarrow> string list \<Rightarrow> event list \<Rightarrow> state" where
  "PacketListRecord frameData cmap ver pool tr =
     \<lparr>col_text = None, lines = 1, line_count_changed = False, data_ver = 0,
      colorized = False, conv = None, fdata = frameData,
      cinfo_column = cmap, col_data_ver = ver, string_cache_pool = pool, trace = tr\<rparr>"

text \<open>The initial values of the static members: an empty map and version 1.\<close>

definition new_record :: "frame_data \<Rightarrow> state" where
  "new_record frameData = PacketListRecord frameData Map.empty 1 [] []"

subsection \<open>Column population\<close>

text \<open>
  \<^verbatim>\<open>g_string_chunk_insert_const\<close>: the pool keeps one copy of each string and returns
  it; the returned string has the content of the argument.
\<close>

definition g_string_chunk_insert_const :: "string list \<Rightarrow> string \<Rightarrow> string list \<times> string" where
  "g_string_chunk_insert_const pool s = (if s \<in> set pool then pool else pool @ [s], s)"

definition newline :: char where
  "newline = CHR 0x0A"

text \<open>
  The inner loop over \<^verbatim>\<open>col_str\<close>: \<^verbatim>\<open>col_lines\<close> starts at 1 and grows by one
  per newline character. The count is an unbounded integer here; a column text is far
  shorter than the \<open>2 ^ 31\<close> characters that would overflow the \<^verbatim>\<open>int\<close> of the source.
\<close>

definition col_lines_of :: "string \<Rightarrow> int" where
  "col_lines_of col_str = 1 + int (count_list col_str newline)"

text \<open>The text a filler returns for one column, written into \<^verbatim>\<open>col_data\<close> of that column.\<close>

definition write_col :: "column_info \<Rightarrow> int \<Rightarrow> string option \<Rightarrow> column_info" where
  "write_col ci column t =
     (case t of None \<Rightarrow> ci | Some s \<Rightarrow> ci\<lparr>col_data := (col_data ci)(column := s)\<rparr>)"

text \<open>
  The body of the loop of \<^verbatim>\<open>cacheColumnStrings\<close> (the branch compiled when
  \<^verbatim>\<open>MINIMIZE_STRING_COPYING\<close> is not defined, which is the case):
  \<open>col_str_of\<close> is the choice of \<^verbatim>\<open>col_str\<close>, \<open>cache_column\<close> the whole body.
\<close>

definition col_str_of :: "env \<Rightarrow> int \<Rightarrow> column_info \<Rightarrow> state \<Rightarrow> column_info \<times> string" where
  "col_str_of e column ci st =
     (if \<not> get_column_resolved e column \<and> col_expr_val ci column \<noteq> None
      then (ci, the (col_expr_val ci column))
      else
        let text_col = (case cinfo_column st column of None \<Rightarrow> - 1 | Some j \<Rightarrow> j);
            ci1 = (if text_col < 0
                   then write_col ci column (col_fill_in_frame_data e (fdata st) ci column)
                   else ci)
        in (ci1, col_data ci1 column))"

definition cache_column :: "env \<Rightarrow> int \<Rightarrow> column_info \<times> state \<Rightarrow> column_info \<times> state" where
  "cache_column e column cs =
     (let st = snd cs;
          p = col_str_of e column (fst cs) st;
          col_str = snd p;
          ins = g_string_chunk_insert_const (string_cache_pool st) col_str;
          st1 = st\<lparr>col_text := map_option (\<lambda>xs. xs @ [Some (snd ins)]) (col_text st),
                    string_cache_pool := fst ins\<rparr>;
          col_lines = col_lines_of col_str
      in if col_lines > lines st1
         then (fst p, st1\<lparr>lines := col_lines, line_count_changed := True\<rparr>)
         else (fst p, st1))"

definition cacheColumnStrings :: "env \<Rightarrow> column_info option \<Rightarrow> state \<Rightarrow> column_info option \<times> state" where
  "cacheColumnStrings e cinfo_ptr st =
     (case cinfo_ptr of
        None \<Rightarrow> (None, st)
      | Some ci \<Rightarrow>
          let st1 = st\<lparr>col_text := Some [], lines := 1, line_count_changed := False\<rparr>;
              r = fold (cache_column e) [0 .. num_cols ci - 1] (ci, st1)
          in (Some (fst r), snd r))"

subsection \<open>Dissection\<close>

definition epan_dissect_init :: "bool \<Rightarrow> epan_dissect" where
  "epan_dissect_init tree = \<lparr>create_proto_tree = tree, color_primed = False, custom_primed = False\<rparr>"

definition color_filters_prime_edt :: "epan_dissect \<Rightarrow> epan_dissect" where
  "color_filters_prime_edt edt = edt\<lparr>color_primed := True\<rparr>"

definition col_custom_prime_edt :: "epan_dissect \<Rightarrow> epan_dissect" where
  "col_custom_prime_edt edt = edt\<lparr>custom_primed := True\<rparr>"

text \<open>A filler's texts written into \<^verbatim>\<open>col_data\<close>, column by column.\<close>

definition write_cols :: "column_info \<Rightarrow> (int \<Rightarrow> string option) \<Rightarrow> column_info" where
  "write_cols ci f =
     ci\<lparr>col_data := (\<lambda>i. case f i of None \<Rightarrow> col_data ci i | Some s \<Rightarrow> s)\<rparr>"

text \<open>\<^verbatim>\<open>dissect_columns\<close>, as \<^verbatim>\<open>dissect\<close> computes it once \<^verbatim>\<open>col_text_\<close> exists.\<close>

definition dissect_columns_of :: "state \<Rightarrow> bool" where
  "dissect_columns_of st =
     ((case col_text st of None \<Rightarrow> True | Some xs \<Rightarrow> xs = []) \<or> data_ver st \<noteq> col_data_ver st)"

text \<open>The test of \<^verbatim>\<open>dissect\<close> for a protocol tree.\<close>

definition create_proto_tree_of :: "env \<Rightarrow> bool \<Rightarrow> bool \<Rightarrow> column_info \<Rightarrow> bool" where
  "create_proto_tree_of e dissect_color dissect_columns ci =
     ((dissect_color \<and> color_filters_used e) \<or>
      (dissect_columns \<and> (have_custom_cols e ci \<or> have_field_extractors e)))"

definition dissect :: "env \<Rightarrow> capture_file option \<Rightarrow> bool \<Rightarrow> state \<Rightarrow> capture_file option \<times> state" where
  "dissect e cap_file dissect_color st0 =
     (let st = (if col_text st0 = None then st0\<lparr>col_text := Some []\<rparr> else st0);
          dissect_columns = dissect_columns_of st
      in case cap_file of
           None \<Rightarrow> (None, st)
         | Some cf \<Rightarrow>
             let st1 = st\<lparr>trace := trace st @ [Read_record]\<rparr>
             in if \<not> cf_read_record_r e (fdata st1) then
                  let r = (if dissect_columns
                           then cacheColumnStrings e
                                  (Some (write_cols (cinfo cf) (col_fill_in_error e (cinfo cf) (fdata st1)))) st1
                           else (None, st1));
                      cf1 = (case fst r of None \<Rightarrow> cf | Some ci \<Rightarrow> cf\<lparr>cinfo := ci\<rparr>);
                      st2 = snd r;
                      st3 = (if dissect_color
                             then st2\<lparr>fdata := (fdata st2)\<lparr>color_filter := None\<rparr>, colorized := True\<rparr>
                             else st2)
                  in (Some cf1, st3)
                else
                  let tree = create_proto_tree_of e dissect_color dissect_columns (cinfo cf);
                      edt0 = epan_dissect_init tree;
                      edt1 = (if dissect_color then color_filters_prime_edt edt0 else edt0);
                      st2 = (if dissect_color then st1\<lparr>fdata := (fdata st1)\<lparr>need_colorize := True\<rparr>\<rparr> else st1);
                      edt = (if dissect_columns then col_custom_prime_edt edt1 else edt1);
                      cinfo_ptr = (if dissect_columns then Some (cinfo cf) else None);
                      d = epan_dissect_run e edt (fdata st2) cinfo_ptr;
                      st3 = st2\<lparr>fdata := d_fdata d, trace := trace st2 @ [Dissect_run edt dissect_columns]\<rparr>;
                      r = (if dissect_columns
                           then let ci1 = (cinfo cf)\<lparr>col_data := d_col_data d, col_expr_val := d_col_expr_val d\<rparr>;
                                    ci2 = write_cols ci1 (epan_dissect_fill_in_columns e d ci1)
                                in cacheColumnStrings e (Some ci2) st3
                           else (None, st3));
                      cf1 = (case fst r of None \<Rightarrow> cf | Some ci \<Rightarrow> cf\<lparr>cinfo := ci\<rparr>);
                      st4 = snd r;
                      st5 = (if dissect_color then st4\<lparr>colorized := True\<rparr> else st4);
                      st6 = st5\<lparr>data_ver := col_data_ver st5\<rparr>;
                      st7 = st6\<lparr>conv := find_conversation_pinfo e (d_pinfo d)\<rparr>
                  in (Some cf1, st7))"

subsection \<open>The public operations\<close>

text \<open>
  \<^verbatim>\<open>col_text_->value(column, QByteArray())\<close>, converted to the byte array returned:
  the text at the index, and the empty byte array out of range or for a null entry.
\<close>

definition value_at :: "string option list option \<Rightarrow> int \<Rightarrow> string" where
  "value_at ct column =
     (case ct of
        None \<Rightarrow> []
      | Some xs \<Rightarrow>
          if 0 \<le> column \<and> column < int (length xs)
          then (case xs ! nat column of None \<Rightarrow> [] | Some s \<Rightarrow> s)
          else [])"

text \<open>The test of \<^verbatim>\<open>columnString\<close> that sends the call to \<^verbatim>\<open>dissect\<close>.\<close>

definition needs_dissect :: "int \<Rightarrow> bool \<Rightarrow> state \<Rightarrow> bool" where
  "needs_dissect column dissect_color st =
     ((case col_text st of
         None \<Rightarrow> True
       | Some xs \<Rightarrow> column \<ge> int (length xs) \<or> xs ! nat column = None)
      \<or> data_ver st \<noteq> col_data_ver st \<or> dissect_color)"

definition columnString ::
  "env \<Rightarrow> capture_file option \<Rightarrow> int \<Rightarrow> bool \<Rightarrow> state \<Rightarrow> string \<times> capture_file option \<times> state" where
  "columnString e cap_file column colorize st =
     (case cap_file of
        None \<Rightarrow> ([], None, st)
      | Some cf \<Rightarrow>
          if column < 0 \<or> column > num_cols (cinfo cf) then ([], cap_file, st)
          else
            let dissect_color = (colorize \<and> \<not> colorized st);
                r = (if needs_dissect column dissect_color st
                     then dissect e cap_file dissect_color st
                     else (cap_file, st))
            in (value_at (col_text (snd r)) column, fst r, snd r))"

text \<open>
  Modelled from the spec: \<^verbatim>\<open>invalidateAllRecords\<close>, which is defined in the header
  \<^verbatim>\<open>packet_list_record.h\<close> and not in this file. The spec says that a schema change
  bumps the generation, exactly once; the generation is the static
  \<^verbatim>\<open>unsigned col_data_ver_\<close>, so the bump is an addition of 1 on 32 bits.
\<close>

definition invalidateAllRecords :: "state \<Rightarrow> state" where
  "invalidateAllRecords st = st\<lparr>col_data_ver := col_data_ver st + 1\<rparr>"

text \<open>The loop of \<^verbatim>\<open>resetColumns\<close>: the pair is \<^verbatim>\<open>j\<close> and the map built so far.\<close>

definition reset_step :: "env \<Rightarrow> column_info \<Rightarrow> int \<Rightarrow> int \<times> (int \<rightharpoonup> int) \<Rightarrow> int \<times> (int \<rightharpoonup> int)" where
  "reset_step e ci i jm =
     (if \<not> col_based_on_frame_data e ci i then (fst jm + 1, (snd jm)(i \<mapsto> fst jm)) else jm)"

definition resetColumns :: "env \<Rightarrow> column_info option \<Rightarrow> state \<Rightarrow> state" where
  "resetColumns e cinfo_ptr st =
     (let st1 = invalidateAllRecords st
      in case cinfo_ptr of
           None \<Rightarrow> st1
         | Some ci \<Rightarrow>
             st1\<lparr>cinfo_column := snd (fold (reset_step e ci) [0 .. num_cols ci - 1] (0, Map.empty))\<rparr>)"

definition resetColorized :: "state \<Rightarrow> state" where
  "resetColorized st = st\<lparr>colorized := False\<rparr>"

subsection \<open>Observations on the log\<close>

text \<open>
  The number of calls to the record source and to the dissector so far, and the cached
  texts as the strings a caller sees (empty for a null entry, none without a cache).
\<close>

definition reads :: "state \<Rightarrow> nat" where
  "reads st = count_list (trace st) Read_record"

fun is_run :: "event \<Rightarrow> bool" where
  "is_run Read_record = False"
| "is_run (Dissect_run edt c) = True"

definition runs :: "state \<Rightarrow> nat" where
  "runs st = length (filter is_run (trace st))"

definition texts :: "state \<Rightarrow> string list" where
  "texts st = (case col_text st of None \<Rightarrow> [] | Some xs \<Rightarrow> map (\<lambda>x. case x of None \<Rightarrow> [] | Some s \<Rightarrow> s) xs)"

subsection \<open>Assumptions on the external functions\<close>

text \<open>
  The record source and the column fillers read the metadata of the record and the column
  descriptor: what they return does not depend on the colour filter slot of the frame
  data, nor on the text that is in \<^verbatim>\<open>col_data\<close> before they run.
\<close>

definition repeatable :: "env \<Rightarrow> bool" where
  "repeatable e =
     ((\<forall>fd x. cf_read_record_r e (fd\<lparr>color_filter := x\<rparr>) = cf_read_record_r e fd) \<and>
      (\<forall>ci fd x. col_fill_in_error e ci (fd\<lparr>color_filter := x\<rparr>) = col_fill_in_error e ci fd) \<and>
      (\<forall>ci fd d. col_fill_in_error e (ci\<lparr>col_data := d\<rparr>) fd = col_fill_in_error e ci fd) \<and>
      (\<forall>ci fd x. col_fill_in_frame_data e (fd\<lparr>color_filter := x\<rparr>) ci = col_fill_in_frame_data e fd ci) \<and>
      (\<forall>ci fd d. col_fill_in_frame_data e fd (ci\<lparr>col_data := d\<rparr>) = col_fill_in_frame_data e fd ci))"

text \<open>
  A cache that is current and not empty holds one non-null text per column of the
  descriptor of the capture file. (A new record has no cache; every population writes
  one text per column.)
\<close>

definition cache_consistent :: "capture_file \<Rightarrow> state \<Rightarrow> bool" where
  "cache_consistent cf st =
     (case col_text st of
        None \<Rightarrow> True
      | Some xs \<Rightarrow>
          xs = [] \<or> data_ver st \<noteq> col_data_ver st \<or>
          (length xs = nat (num_cols (cinfo cf)) \<and> None \<notin> set xs))"

subsection \<open>An example session\<close>

text \<open>
  Three columns: the frame number (filled from the frame data), the protocol and the
  info column (filled by the dissector). The info text of the example frame has three
  lines. The argument of \<open>demo_env\<close> says whether the record can be read.
\<close>

definition demo_info :: string where
  "demo_info = [CHR ''a'', newline, CHR ''b'', newline, CHR ''c'']"

definition demo_ci :: column_info where
  "demo_ci = \<lparr>num_cols = 3, col_data = (\<lambda>c. []), col_expr_val = (\<lambda>c. None)\<rparr>"

definition demo_cf :: capture_file where
  "demo_cf = \<lparr>cinfo = demo_ci\<rparr>"

definition demo_fd :: frame_data where
  "demo_fd = \<lparr>num = 1, color_filter = None, need_colorize = False\<rparr>"

definition demo_env :: "bool \<Rightarrow> env" where
  "demo_env ok =
     \<lparr>cf_read_record_r = (\<lambda>fd. ok),
      color_filters_used = True,
      have_custom_cols = (\<lambda>ci. False),
      have_field_extractors = False,
      get_column_resolved = (\<lambda>c. True),
      col_based_on_frame_data = (\<lambda>ci c. c = 0),
      col_fill_in_error = (\<lambda>ci fd c. if c = 0 then None else if c = 2 then Some ''Read error'' else Some ''???''),
      col_fill_in_frame_data = (\<lambda>fd ci c. if c = 0 then Some ''1'' else None),
      epan_dissect_run = (\<lambda>edt fd ci.
         \<lparr>d_fdata = fd\<lparr>color_filter := (if color_primed edt then Some 7 else color_filter fd),
                         need_colorize := False\<rparr>,
          d_col_data = (\<lambda>c. if c = 2 then demo_info else ''TCP''),
          d_col_expr_val = (\<lambda>c. None),
          d_pinfo = 0\<rparr>),
      epan_dissect_fill_in_columns = (\<lambda>d ci c. None),
      find_conversation_pinfo = (\<lambda>p. None)\<rparr>"

text \<open>A new record, after the columns have been set up once.\<close>

definition demo_start :: state where
  "demo_start = resetColumns (demo_env True) (Some demo_ci) (new_record demo_fd)"

text \<open>The example record after its first read of the info column, without colouring.\<close>

definition demo_populated :: state where
  "demo_populated = snd (snd (columnString (demo_env True) (Some demo_cf) 2 False demo_start))"

text \<open>The same record after the columns were reset to the same three columns and read again.\<close>

definition demo_repopulated :: state where
  "demo_repopulated =
     snd (snd (columnString (demo_env True) (Some demo_cf) 2 False
                 (resetColumns (demo_env True) (Some demo_ci) demo_populated)))"

text \<open>The first read of the info column when the record cannot be read, and the same call again.\<close>

definition demo_failed :: "string \<times> capture_file option \<times> state" where
  "demo_failed = columnString (demo_env False) (Some demo_cf) 2 False demo_start"

definition demo_failed_again :: "string \<times> capture_file option \<times> state" where
  "demo_failed_again =
     columnString (demo_env False) (fst (snd demo_failed)) 2 False (snd (snd demo_failed))"

text \<open>The column texts as the dissector leaves them for the example frame.\<close>

definition demo_parsed_ci :: column_info where
  "demo_parsed_ci = demo_ci\<lparr>col_data := (\<lambda>c. if c = 2 then demo_info else ''TCP'')\<rparr>"


text \<open>The example record after a first read of the info column with colouring.\<close>

definition demo_colorized :: state where
  "demo_colorized = snd (snd (columnString (demo_env True) (Some demo_cf) 2 True demo_start))"

text \<open>The colourized record after the columns were reset: its stamp is stale.\<close>

definition demo_colorized_stale :: state where
  "demo_colorized_stale = resetColumns (demo_env True) (Some demo_ci) demo_colorized"

text \<open>
  The unreadable record after its first read without colouring (\<open>demo_failed\<close>): a read
  of the same column with colouring, and then one without.
\<close>

definition demo_failed_upgrade :: "string \<times> capture_file option \<times> state" where
  "demo_failed_upgrade =
     columnString (demo_env False) (fst (snd demo_failed)) 2 True (snd (snd demo_failed))"

definition demo_failed_downgrade :: "string \<times> capture_file option \<times> state" where
  "demo_failed_downgrade =
     columnString (demo_env False) (fst (snd demo_failed_upgrade)) 2 False (snd (snd demo_failed_upgrade))"

section \<open>Lemmas\<close>

subsection \<open>The population loop\<close>

lemma g_string_chunk_insert_const_snd: "snd (g_string_chunk_insert_const pool s) = s"
  by (simp add: g_string_chunk_insert_const_def)

lemma col_lines_of_ge1: "1 \<le> col_lines_of s"
  by (simp add: col_lines_of_def)

lemma write_col_frame:
  "num_cols (write_col ci c t) = num_cols ci"
  "col_expr_val (write_col ci c t) = col_expr_val ci"
  by (simp_all add: write_col_def split: option.split)

lemma col_str_of_frame:
  "num_cols (fst (col_str_of e c ci st)) = num_cols ci"
  "col_expr_val (fst (col_str_of e c ci st)) = col_expr_val ci"
  by (simp_all add: col_str_of_def Let_def write_col_frame)

lemma cache_column_frame:
  "data_ver (snd (cache_column e c cs)) = data_ver (snd cs)"
  "colorized (snd (cache_column e c cs)) = colorized (snd cs)"
  "conv (snd (cache_column e c cs)) = conv (snd cs)"
  "fdata (snd (cache_column e c cs)) = fdata (snd cs)"
  "cinfo_column (snd (cache_column e c cs)) = cinfo_column (snd cs)"
  "col_data_ver (snd (cache_column e c cs)) = col_data_ver (snd cs)"
  "trace (snd (cache_column e c cs)) = trace (snd cs)"
  by (simp_all add: cache_column_def Let_def)

lemma cache_column_fst: "fst (cache_column e c cs) = fst (col_str_of e c (fst cs) (snd cs))"
  by (simp add: cache_column_def Let_def)

lemma cache_column_col_text:
  "col_text (snd (cache_column e c cs)) =
     map_option (\<lambda>xs. xs @ [Some (snd (col_str_of e c (fst cs) (snd cs)))]) (col_text (snd cs))"
  by (simp add: cache_column_def Let_def g_string_chunk_insert_const_snd)

lemma cache_column_lines:
  "lines (snd (cache_column e c cs)) =
     max (lines (snd cs)) (col_lines_of (snd (col_str_of e c (fst cs) (snd cs))))"
  by (simp add: cache_column_def Let_def max_def)

lemma cache_column_changed:
  "line_count_changed (snd (cache_column e c cs)) =
     (line_count_changed (snd cs) \<or> lines (snd cs) < col_lines_of (snd (col_str_of e c (fst cs) (snd cs))))"
  by (simp add: cache_column_def Let_def)

lemma fold_cache_column_frame:
  "data_ver (snd (fold (cache_column e) cols cs)) = data_ver (snd cs)"
  "colorized (snd (fold (cache_column e) cols cs)) = colorized (snd cs)"
  "conv (snd (fold (cache_column e) cols cs)) = conv (snd cs)"
  "fdata (snd (fold (cache_column e) cols cs)) = fdata (snd cs)"
  "cinfo_column (snd (fold (cache_column e) cols cs)) = cinfo_column (snd cs)"
  "col_data_ver (snd (fold (cache_column e) cols cs)) = col_data_ver (snd cs)"
  "trace (snd (fold (cache_column e) cols cs)) = trace (snd cs)"
  by (induction cols arbitrary: cs; simp add: cache_column_frame)+

lemma fold_cache_column_num_cols:
  "num_cols (fst (fold (cache_column e) cols cs)) = num_cols (fst cs)"
  "col_expr_val (fst (fold (cache_column e) cols cs)) = col_expr_val (fst cs)"
  by (induction cols arbitrary: cs; simp add: cache_column_fst col_str_of_frame)+

lemma fold_cache_column_lines_ge:
  "lines (snd cs) \<le> lines (snd (fold (cache_column e) cols cs))"
proof (induction cols arbitrary: cs)
  case Nil
  show ?case by simp
next
  case (Cons c cols)
  have "lines (snd cs) \<le> lines (snd (cache_column e c cs))"
    by (simp add: cache_column_lines)
  also have "\<dots> \<le> lines (snd (fold (cache_column e) cols (cache_column e c cs)))"
    by (rule Cons.IH)
  finally show ?case by simp
qed

lemma fold_cache_column_changed:
  "line_count_changed (snd (fold (cache_column e) cols cs)) =
     (line_count_changed (snd cs) \<or> lines (snd cs) < lines (snd (fold (cache_column e) cols cs)))"
proof (induction cols arbitrary: cs)
  case Nil
  show ?case by simp
next
  case (Cons c cols)
  have a: "lines (snd (cache_column e c cs)) \<le> lines (snd (fold (cache_column e) cols (cache_column e c cs)))"
    by (rule fold_cache_column_lines_ge)
  have b: "lines (snd (cache_column e c cs)) = max (lines (snd cs)) (col_lines_of (snd (col_str_of e c (fst cs) (snd cs))))"
    by (rule cache_column_lines)
  have "line_count_changed (snd (fold (cache_column e) (c # cols) cs)) =
        (line_count_changed (snd (cache_column e c cs)) \<or>
         lines (snd (cache_column e c cs)) < lines (snd (fold (cache_column e) cols (cache_column e c cs))))"
    using Cons.IH [of "cache_column e c cs"] by simp
  also have "\<dots> = (line_count_changed (snd cs) \<or> lines (snd cs) < lines (snd (fold (cache_column e) cols (cache_column e c cs))))"
    using a b unfolding cache_column_changed by (auto simp: max_def split: if_splits)
  finally show ?case by simp
qed

lemma Max_insert_max:
  "finite S \<Longrightarrow> Max (insert (max a b) S) = Max (insert (a::int) (insert b S))"
  by (cases "S = {}") (simp_all add: max.assoc)

lemma fold_cache_column_texts:
  "col_text (snd cs) = Some xs \<Longrightarrow>
   \<exists>ss. length ss = length cols \<and>
        col_text (snd (fold (cache_column e) cols cs)) = Some (xs @ map Some ss) \<and>
        lines (snd (fold (cache_column e) cols cs)) = Max (insert (lines (snd cs)) (col_lines_of ` set ss))"
proof (induction cols arbitrary: cs xs)
  case Nil
  then show ?case by simp
next
  case (Cons c cols)
  let ?s = "snd (col_str_of e c (fst cs) (snd cs))"
  have ct: "col_text (snd (cache_column e c cs)) = Some (xs @ [Some ?s])"
    using Cons.prems by (simp add: cache_column_col_text)
  from Cons.IH [OF ct] obtain ss where
    l: "length ss = length cols"
    and t: "col_text (snd (fold (cache_column e) cols (cache_column e c cs))) = Some ((xs @ [Some ?s]) @ map Some ss)"
    and m: "lines (snd (fold (cache_column e) cols (cache_column e c cs)))
            = Max (insert (lines (snd (cache_column e c cs))) (col_lines_of ` set ss))"
    by blast
  have m2: "Max (insert (max (lines (snd cs)) (col_lines_of ?s)) (col_lines_of ` set ss))
          = Max (insert (lines (snd cs)) (col_lines_of ` set (?s # ss)))"
    using Max_insert_max [of "col_lines_of ` set ss" "lines (snd cs)" "col_lines_of ?s"] by simp
  show ?case
    apply (rule exI [of _ "?s # ss"])
    using l t m m2 by (simp add: cache_column_lines)
qed

subsection \<open>cacheColumnStrings\<close>

lemma cacheColumnStrings_frame:
  "data_ver (snd (cacheColumnStrings e cp st)) = data_ver st"
  "colorized (snd (cacheColumnStrings e cp st)) = colorized st"
  "conv (snd (cacheColumnStrings e cp st)) = conv st"
  "fdata (snd (cacheColumnStrings e cp st)) = fdata st"
  "cinfo_column (snd (cacheColumnStrings e cp st)) = cinfo_column st"
  "col_data_ver (snd (cacheColumnStrings e cp st)) = col_data_ver st"
  "trace (snd (cacheColumnStrings e cp st)) = trace st"
  by (simp_all add: cacheColumnStrings_def Let_def fold_cache_column_frame split: option.split)

lemma cacheColumnStrings_fst:
  "\<exists>ci'. fst (cacheColumnStrings e (Some ci) st) = Some ci' \<and> num_cols ci' = num_cols ci
         \<and> col_expr_val ci' = col_expr_val ci"
  by (simp add: cacheColumnStrings_def Let_def fold_cache_column_num_cols)

lemma cacheColumnStrings_texts:
  "\<exists>ss. length ss = nat (num_cols ci) \<and>
        col_text (snd (cacheColumnStrings e (Some ci) st)) = Some (map Some ss) \<and>
        lines (snd (cacheColumnStrings e (Some ci) st)) = Max (insert 1 (col_lines_of ` set ss))"
proof -
  let ?st1 = "st\<lparr>col_text := Some [], lines := 1, line_count_changed := False\<rparr>"
  have "col_text (snd (ci, ?st1)) = Some []" by simp
  from fold_cache_column_texts [OF this, of "[0 .. num_cols ci - 1]" e]
  show ?thesis by (simp add: cacheColumnStrings_def Let_def)
qed

lemma cacheColumnStrings_changed:
  "line_count_changed (snd (cacheColumnStrings e (Some ci) st)) =
     (1 < lines (snd (cacheColumnStrings e (Some ci) st)))"
  using fold_cache_column_changed
    [of e "[0 .. num_cols ci - 1]" "(ci, st\<lparr>col_text := Some [], lines := 1, line_count_changed := False\<rparr>)"]
  by (simp add: cacheColumnStrings_def Let_def)

lemma texts_Some: "col_text st = Some (map Some ss) \<Longrightarrow> texts st = ss"
  by (simp add: texts_def comp_def)

lemma Max_col_lines: "Max (insert 1 (col_lines_of ` set ss)) = (if ss = [] then 1 else Max (col_lines_of ` set ss))"
proof (cases "ss = []")
  case True
  then show ?thesis by simp
next
  case False
  then have ne: "col_lines_of ` set ss \<noteq> {}" by simp
  have "1 \<le> Max (col_lines_of ` set ss)"
  proof -
    from False obtain s where s: "s \<in> set ss" by (cases ss) auto
    have "1 \<le> col_lines_of s" by (rule col_lines_of_ge1)
    also have "\<dots> \<le> Max (col_lines_of ` set ss)" using s by simp
    finally show ?thesis .
  qed
  then show ?thesis using False ne by (simp add: max_def)
qed

lemma cacheColumnStrings_lines_ge1: "1 \<le> lines (snd (cacheColumnStrings e (Some ci) st))"
proof -
  obtain ss where "lines (snd (cacheColumnStrings e (Some ci) st)) = Max (insert 1 (col_lines_of ` set ss))"
    using cacheColumnStrings_texts by blast
  then show ?thesis by simp
qed

subsection \<open>dissect\<close>

lemma dissect_columns_of_prep:
  "dissect_columns_of (if col_text st = None then st\<lparr>col_text := Some []\<rparr> else st) = dissect_columns_of st"
  by (simp add: dissect_columns_of_def)

lemma dissect_fail_trace:
  "\<not> cf_read_record_r e (fdata st) \<Longrightarrow> trace (snd (dissect e (Some cf) dc st)) = trace st @ [Read_record]"
  by (simp add: dissect_def Let_def cacheColumnStrings_frame)

lemma dissect_fail_data_ver:
  "\<not> cf_read_record_r e (fdata st) \<Longrightarrow> data_ver (snd (dissect e (Some cf) dc st)) = data_ver st"
  by (simp add: dissect_def Let_def cacheColumnStrings_frame)

lemma dissect_fail_colorized:
  "\<not> cf_read_record_r e (fdata st) \<Longrightarrow> colorized (snd (dissect e (Some cf) dc st)) = (dc \<or> colorized st)"
  by (simp add: dissect_def Let_def cacheColumnStrings_frame)

lemma dissect_fail_fdata:
  "\<not> cf_read_record_r e (fdata st) \<Longrightarrow>
   fdata (snd (dissect e (Some cf) dc st)) = (if dc then (fdata st)\<lparr>color_filter := None\<rparr> else fdata st)"
  by (simp add: dissect_def Let_def cacheColumnStrings_frame)

lemma dissect_statics:
  "col_data_ver (snd (dissect e cap_file dc st)) = col_data_ver st"
  "cinfo_column (snd (dissect e cap_file dc st)) = cinfo_column st"
  by (simp_all add: dissect_def Let_def cacheColumnStrings_frame split: option.split)

lemma dissect_ok_trace:
  "cf_read_record_r e (fdata st) \<Longrightarrow>
   trace (snd (dissect e (Some cf) dc st)) =
     trace st @ [Read_record,
                 Dissect_run \<lparr>create_proto_tree =
                                ((dc \<and> color_filters_used e) \<or>
                                 (dissect_columns_of st \<and> (have_custom_cols e (cinfo cf) \<or> have_field_extractors e))),
                              color_primed = dc, custom_primed = dissect_columns_of st\<rparr>
                   (dissect_columns_of st)]"
  by (simp add: dissect_def Let_def cacheColumnStrings_frame dissect_columns_of_prep
      create_proto_tree_of_def epan_dissect_init_def color_filters_prime_edt_def col_custom_prime_edt_def)

lemma dissect_ok_data_ver:
  "cf_read_record_r e (fdata st) \<Longrightarrow> data_ver (snd (dissect e (Some cf) dc st)) = col_data_ver st"
  by (simp add: dissect_def Let_def cacheColumnStrings_frame)

lemma dissect_ok_colorized:
  "cf_read_record_r e (fdata st) \<Longrightarrow> colorized (snd (dissect e (Some cf) dc st)) = (dc \<or> colorized st)"
  by (simp add: dissect_def Let_def cacheColumnStrings_frame)

subsection \<open>columnString\<close>

lemma columnString_out_of_range:
  "column < 0 \<or> column > num_cols (cinfo cf) \<Longrightarrow>
   columnString e (Some cf) column colorize st = ([], Some cf, st)"
  by (simp add: columnString_def)

lemma columnString_cached:
  "0 \<le> column \<Longrightarrow> column \<le> num_cols (cinfo cf) \<Longrightarrow>
   \<not> needs_dissect column (colorize \<and> \<not> colorized st) st \<Longrightarrow>
   columnString e (Some cf) column colorize st = (value_at (col_text st) column, Some cf, st)"
  by (simp add: columnString_def Let_def)

lemma columnString_dissect:
  "0 \<le> column \<Longrightarrow> column \<le> num_cols (cinfo cf) \<Longrightarrow>
   needs_dissect column (colorize \<and> \<not> colorized st) st \<Longrightarrow>
   columnString e (Some cf) column colorize st =
     (value_at (col_text (snd (dissect e (Some cf) (colorize \<and> \<not> colorized st) st))) column,
      dissect e (Some cf) (colorize \<and> \<not> colorized st) st)"
  by (simp add: columnString_def Let_def)

lemma dissect_lines_ge1:
  "1 \<le> lines st \<Longrightarrow> 1 \<le> lines (snd (dissect e cap_file dc st))"
  by (simp add: dissect_def Let_def cacheColumnStrings_lines_ge1 split: option.split)

lemma columnString_lines_ge1:
  "1 \<le> lines st \<Longrightarrow> 1 \<le> lines (snd (snd (columnString e cap_file column colorize st)))"
  by (simp add: columnString_def Let_def dissect_lines_ge1 split: option.split)

lemma dissect_reads:
  "reads (snd (dissect e (Some cf) dc st)) = reads st + 1"
proof (cases "cf_read_record_r e (fdata st)")
  case True
  then show ?thesis by (simp add: reads_def dissect_ok_trace)
next
  case False
  then show ?thesis by (simp add: reads_def dissect_fail_trace)
qed

lemma dissect_runs:
  "runs (snd (dissect e (Some cf) dc st)) = runs st + (if cf_read_record_r e (fdata st) then 1 else 0)"
proof (cases "cf_read_record_r e (fdata st)")
  case True
  then show ?thesis by (simp add: runs_def dissect_ok_trace)
next
  case False
  then show ?thesis by (simp add: runs_def dissect_fail_trace)
qed

lemma populated_no_dissect:
  "col_text st = Some xs \<Longrightarrow> 0 \<le> column \<Longrightarrow> column < int (length xs) \<Longrightarrow>
   xs ! nat column \<noteq> None \<Longrightarrow> data_ver st = col_data_ver st \<Longrightarrow>
   \<not> needs_dissect column False st"
  by (simp add: needs_dissect_def)

subsection \<open>What dissect leaves in the cache\<close>

lemma write_cols_frame:
  "num_cols (write_cols ci f) = num_cols ci"
  "col_expr_val (write_cols ci f) = col_expr_val ci"
  by (simp_all add: write_cols_def)

lemma cacheColumnStrings_texts_n:
  "n = nat (num_cols ci) \<Longrightarrow>
   \<exists>ss. length ss = n \<and> col_text (snd (cacheColumnStrings e (Some ci) st)) = Some (map Some ss)"
  using cacheColumnStrings_texts [of ci e st] by blast

lemma cacheColumnStrings_cap_file:
  "num_cols (cinfo (case fst (cacheColumnStrings e (Some ci) st) of None \<Rightarrow> cf | Some ci' \<Rightarrow> cf\<lparr>cinfo := ci'\<rparr>))
     = num_cols ci"
  by (simp add: cacheColumnStrings_def Let_def fold_cache_column_num_cols)

lemma dissect_columns_texts:
  assumes "dissect_columns_of st"
  shows "\<exists>ss. length ss = nat (num_cols (cinfo cf)) \<and>
              col_text (snd (dissect e (Some cf) dc st)) = Some (map Some ss)"
proof (cases "cf_read_record_r e (fdata st)")
  case False
  with assms show ?thesis
    by (simp add: dissect_def Let_def dissect_columns_of_prep)
       (auto intro!: cacheColumnStrings_texts_n simp: write_cols_frame)
next
  case True
  with assms show ?thesis
    by (simp add: dissect_def Let_def dissect_columns_of_prep)
       (auto intro!: cacheColumnStrings_texts_n simp: write_cols_frame)
qed

lemma dissect_keeps_texts:
  "\<not> dissect_columns_of st \<Longrightarrow> col_text (snd (dissect e (Some cf) dc st)) = col_text st"
  by (auto simp: dissect_def Let_def dissect_columns_of_def split: option.splits)

lemma dissect_keeps_cap_file:
  "\<not> dissect_columns_of st \<Longrightarrow> fst (dissect e (Some cf) dc st) = Some cf"
  by (auto simp: dissect_def Let_def dissect_columns_of_def split: option.splits)

lemma dissect_cap_file:
  "\<exists>cf'. fst (dissect e (Some cf) dc st) = Some cf' \<and> num_cols (cinfo cf') = num_cols (cinfo cf)"
  by (simp add: dissect_def Let_def cacheColumnStrings_cap_file write_cols_frame)

lemma dissect_data_ver:
  "data_ver (snd (dissect e (Some cf) dc st)) =
     (if cf_read_record_r e (fdata st) then col_data_ver st else data_ver st)"
  by (simp add: dissect_ok_data_ver dissect_fail_data_ver)

lemma dissect_colorized:
  "colorized (snd (dissect e (Some cf) dc st)) = (dc \<or> colorized st)"
  by (cases "cf_read_record_r e (fdata st)") (simp_all add: dissect_ok_colorized dissect_fail_colorized)


subsection \<open>The text cached for one column\<close>

lemma write_col_other: "c' \<noteq> c \<Longrightarrow> col_data (write_col ci c t) c' = col_data ci c'"
  by (simp add: write_col_def split: option.split)

lemma col_str_of_other:
  "c' \<noteq> c \<Longrightarrow> col_data (fst (col_str_of e c ci st)) c' = col_data ci c'"
  by (simp add: col_str_of_def Let_def write_col_other)

lemma col_str_of_parsed:
  "cinfo_column st c = Some j \<Longrightarrow> 0 \<le> j \<Longrightarrow>
   get_column_resolved e c \<or> col_expr_val ci c = None \<Longrightarrow>
   snd (col_str_of e c ci st) = col_data ci c"
  by (auto simp: col_str_of_def Let_def)

lemma fold_cache_column_nth:
  "col_text (snd cs) = Some xs \<Longrightarrow> distinct cols \<Longrightarrow> k < length cols \<Longrightarrow>
   cinfo_column (snd cs) (cols ! k) = Some j \<Longrightarrow> 0 \<le> j \<Longrightarrow>
   get_column_resolved e (cols ! k) \<or> col_expr_val (fst cs) (cols ! k) = None \<Longrightarrow>
   \<exists>ys. col_text (snd (fold (cache_column e) cols cs)) = Some ys \<and>
        length ys = length xs + length cols \<and>
        ys ! (length xs + k) = Some (col_data (fst cs) (cols ! k))"
proof (induction cols arbitrary: cs xs k)
  case Nil
  then show ?case by simp
next
  case (Cons c cols)
  let ?cs1 = "cache_column e c cs"
  let ?s = "snd (col_str_of e c (fst cs) (snd cs))"
  have ct: "col_text (snd ?cs1) = Some (xs @ [Some ?s])"
    using Cons.prems(1) by (simp add: cache_column_col_text)
  show ?case
  proof (cases k)
    case 0
    obtain ss where ss: "length ss = length cols"
      "col_text (snd (fold (cache_column e) cols ?cs1)) = Some ((xs @ [Some ?s]) @ map Some ss)"
      using fold_cache_column_texts [OF ct, of cols e] by blast
    have "?s = col_data (fst cs) c"
      using Cons.prems(4,5,6) 0 by (simp add: col_str_of_parsed)
    then show ?thesis using ss 0 by (simp add: nth_append)
  next
    case (Suc k')
    have k': "k' < length cols" using Cons.prems(3) Suc by simp
    have ne: "cols ! k' \<noteq> c" using Cons.prems(2) k' by auto
    have m: "cinfo_column (snd ?cs1) (cols ! k') = Some j"
      using Cons.prems(4) Suc by (simp add: cache_column_frame)
    have x: "get_column_resolved e (cols ! k') \<or> col_expr_val (fst ?cs1) (cols ! k') = None"
      using Cons.prems(6) Suc by (simp add: cache_column_fst col_str_of_frame)
    have d: "distinct cols" using Cons.prems(2) by simp
    from Cons.IH [OF ct d k' m Cons.prems(5) x] obtain ys where ys:
      "col_text (snd (fold (cache_column e) cols ?cs1)) = Some ys"
      "length ys = length (xs @ [Some ?s]) + length cols"
      "ys ! (length (xs @ [Some ?s]) + k') = Some (col_data (fst ?cs1) (cols ! k'))"
      by blast
    have "col_data (fst ?cs1) (cols ! k') = col_data (fst cs) (cols ! k')"
      using ne by (simp add: cache_column_fst col_str_of_other)
    then show ?thesis using ys Suc by simp
  qed
qed

lemma cacheColumnStrings_nth:
  assumes "0 \<le> c" and "c < num_cols ci" and "cinfo_column st c = Some j" and "0 \<le> j"
    and "get_column_resolved e c \<or> col_expr_val ci c = None"
  shows "texts (snd (cacheColumnStrings e (Some ci) st)) ! nat c = col_data ci c"
proof -
  let ?st1 = "st\<lparr>col_text := Some [], lines := 1, line_count_changed := False\<rparr>"
  let ?cols = "[0 .. num_cols ci - 1]"
  have k: "nat c < length ?cols" using assms(1,2) by simp
  have n: "?cols ! nat c = c" using assms(1,2) by simp
  have "\<exists>ys. col_text (snd (fold (cache_column e) ?cols (ci, ?st1))) = Some ys \<and>
        length ys = length ([]::string option list) + length ?cols \<and>
        ys ! (length ([]::string option list) + nat c) = Some (col_data (fst (ci, ?st1)) (?cols ! nat c))"
    by (rule fold_cache_column_nth [where j = j]) (use assms k n in simp_all)
  then obtain ys where ys: "col_text (snd (cacheColumnStrings e (Some ci) st)) = Some ys"
     "length ys = length ?cols" "ys ! nat c = Some (col_data ci c)"
    using n by (auto simp: cacheColumnStrings_def Let_def)
  show ?thesis using ys k by (simp add: texts_def)
qed

lemma texts_update:
  "texts (st\<lparr>fdata := f\<rparr>) = texts st"
  "texts (st\<lparr>colorized := b\<rparr>) = texts st"
  "texts (st\<lparr>data_ver := v\<rparr>) = texts st"
  "texts (st\<lparr>conv := cv\<rparr>) = texts st"
  "texts (st\<lparr>trace := t\<rparr>) = texts st"
  by (simp_all add: texts_def)

lemma dissect_columns_of_empty: "dissect_columns_of (st\<lparr>col_text := Some []\<rparr>)"
  by (simp add: dissect_columns_of_def)

lemma dissect_fail_texts:
  assumes "\<not> cf_read_record_r e (fdata st)" and "dissect_columns_of st"
  shows "\<exists>st1. cinfo_column st1 = cinfo_column st \<and> fdata st1 = fdata st \<and>
           texts (snd (dissect e (Some cf) dc st)) =
           texts (snd (cacheColumnStrings e
                   (Some (write_cols (cinfo cf) (col_fill_in_error e (cinfo cf) (fdata st)))) st1))"
  apply (rule exI [of _ "(if col_text st = None then st\<lparr>col_text := Some []\<rparr> else st)\<lparr>trace := trace st @ [Read_record]\<rparr>"])
  using assms
  by (simp add: dissect_def Let_def dissect_columns_of_prep dissect_columns_of_empty texts_update)

lemma dissect_fail_marker:
  assumes "\<not> cf_read_record_r e (fdata st)" and "dissect_columns_of st"
    and "0 \<le> info" and "info < num_cols (cinfo cf)"
    and "col_fill_in_error e (cinfo cf) (fdata st) info = Some marker"
    and "cinfo_column st info = Some j" and "0 \<le> j"
    and "get_column_resolved e info \<or> col_expr_val (cinfo cf) info = None"
  shows "texts (snd (dissect e (Some cf) dc st)) ! nat info = marker"
proof -
  let ?ci = "write_cols (cinfo cf) (col_fill_in_error e (cinfo cf) (fdata st))"
  obtain st1 where st1: "cinfo_column st1 = cinfo_column st"
    "texts (snd (dissect e (Some cf) dc st)) = texts (snd (cacheColumnStrings e (Some ?ci) st1))"
    using dissect_fail_texts [OF assms(1,2)] by blast
  have "texts (snd (cacheColumnStrings e (Some ?ci) st1)) ! nat info = col_data ?ci info"
    by (rule cacheColumnStrings_nth [where j = j])
       (use assms st1(1) in \<open>simp_all add: write_cols_frame\<close>)
  also have "\<dots> = marker" using assms(5) by (simp add: write_cols_def)
  finally show ?thesis using st1(2) by simp
qed

subsection \<open>Repeating the error fill\<close>

lemma column_info_col_data_eq:
  "num_cols a = num_cols b \<Longrightarrow> col_expr_val a = col_expr_val b \<Longrightarrow>
   (b::column_info) = a\<lparr>col_data := col_data b\<rparr>"
  by (cases a, cases b) simp

lemma repeatable_frame_data:
  assumes "repeatable e" and "num_cols a = num_cols b" and "col_expr_val a = col_expr_val b"
  shows "col_fill_in_frame_data e (fd\<lparr>color_filter := x\<rparr>) b = col_fill_in_frame_data e fd a"
proof -
  have "col_fill_in_frame_data e (fd\<lparr>color_filter := x\<rparr>) b = col_fill_in_frame_data e fd b"
    using assms(1) by (simp add: repeatable_def)
  also have "\<dots> = col_fill_in_frame_data e fd (a\<lparr>col_data := col_data b\<rparr>)"
    using column_info_col_data_eq [OF assms(2,3)] by simp
  also have "\<dots> = col_fill_in_frame_data e fd a"
    using assms(1) by (simp add: repeatable_def)
  finally show ?thesis .
qed

lemma repeatable_error:
  assumes "repeatable e" and "num_cols a = num_cols b" and "col_expr_val a = col_expr_val b"
  shows "col_fill_in_error e b (fd\<lparr>color_filter := x\<rparr>) = col_fill_in_error e a fd"
proof -
  have "col_fill_in_error e b (fd\<lparr>color_filter := x\<rparr>) = col_fill_in_error e b fd"
    using assms(1) by (simp add: repeatable_def)
  also have "\<dots> = col_fill_in_error e (a\<lparr>col_data := col_data b\<rparr>) fd"
    using column_info_col_data_eq [OF assms(2,3)] by simp
  also have "\<dots> = col_fill_in_error e a fd"
    using assms(1) by (simp add: repeatable_def)
  finally show ?thesis .
qed

text \<open>
  The choice of \<^verbatim>\<open>col_str\<close> for a column reads the descriptor, the map, the frame data
  and the text of that column only.
\<close>

lemma col_str_of_cong:
  assumes "repeatable e" and "num_cols a = num_cols b" and "col_expr_val a = col_expr_val b"
    and "col_data a c = col_data b c"
    and "cinfo_column sa = cinfo_column sb" and "fdata sb = (fdata sa)\<lparr>color_filter := x\<rparr>"
  shows "snd (col_str_of e c b sb) = snd (col_str_of e c a sa)"
    and "col_data (fst (col_str_of e c b sb)) c = col_data (fst (col_str_of e c a sa)) c"
  using assms(3,4,5) repeatable_frame_data [OF assms(1,2,3), where fd = "fdata sa" and x = x]
  by (simp_all add: col_str_of_def Let_def write_col_def assms(6) split: option.split)

lemma fold_cache_column_closed:
  assumes "repeatable e"
  shows "col_text (snd cs) = Some xs \<Longrightarrow> distinct cols \<Longrightarrow>
   col_text (snd (fold (cache_column e) cols cs)) =
     Some (xs @ map (\<lambda>c. Some (snd (col_str_of e c (fst cs) (snd cs)))) cols) \<and>
   (\<forall>c. col_data (fst (fold (cache_column e) cols cs)) c =
        (if c \<in> set cols then col_data (fst (col_str_of e c (fst cs) (snd cs))) c
         else col_data (fst cs) c))"
proof (induction cols arbitrary: cs xs)
  case Nil
  then show ?case by simp
next
  case (Cons c cols)
  let ?cs1 = "cache_column e c cs"
  let ?s = "snd (col_str_of e c (fst cs) (snd cs))"
  have ct: "col_text (snd ?cs1) = Some (xs @ [Some ?s])"
    using Cons.prems(1) by (simp add: cache_column_col_text)
  have d: "distinct cols" and nc: "c \<notin> set cols" using Cons.prems(2) by simp_all
  note IH = Cons.IH [OF ct d]
  have fd: "fdata (snd cs) = (fdata (snd ?cs1))\<lparr>color_filter := color_filter (fdata (snd ?cs1))\<rparr>"
    by (simp add: cache_column_frame)
  have same: "snd (col_str_of e c' (fst cs) (snd cs)) = snd (col_str_of e c' (fst ?cs1) (snd ?cs1))"
       "col_data (fst (col_str_of e c' (fst cs) (snd cs))) c' = col_data (fst (col_str_of e c' (fst ?cs1) (snd ?cs1))) c'"
    if "c' \<noteq> c" for c'
    by (rule col_str_of_cong [OF assms _ _ _ _ fd];
        simp add: cache_column_fst cache_column_frame col_str_of_frame col_str_of_other that)+
  have t: "map (\<lambda>c'. Some (snd (col_str_of e c' (fst ?cs1) (snd ?cs1)))) cols
         = map (\<lambda>c'. Some (snd (col_str_of e c' (fst cs) (snd cs)))) cols"
  proof (rule map_cong [OF refl])
    fix c' assume "c' \<in> set cols"
    then have "c' \<noteq> c" using nc by auto
    then show "Some (snd (col_str_of e c' (fst ?cs1) (snd ?cs1))) = Some (snd (col_str_of e c' (fst cs) (snd cs)))"
      using same(1) by simp
  qed
  have cdat: "col_data (fst (fold (cache_column e) cols ?cs1)) c' =
        (if c' \<in> set (c # cols) then col_data (fst (col_str_of e c' (fst cs) (snd cs))) c'
         else col_data (fst cs) c')" for c'
  proof (cases "c' = c")
    case True
    then show ?thesis using IH nc by (simp add: cache_column_fst)
  next
    case False
    then show ?thesis using IH same(2) [OF False]
      by (simp add: cache_column_fst col_str_of_other)
  qed
  show ?case using IH t cdat by simp
qed

lemma cacheColumnStrings_closed:
  assumes "repeatable e"
  shows "texts (snd (cacheColumnStrings e (Some ci) st)) =
           map (\<lambda>c. snd (col_str_of e c ci st)) [0 .. num_cols ci - 1]"
    and "\<exists>ci'. fst (cacheColumnStrings e (Some ci) st) = Some ci' \<and>
           num_cols ci' = num_cols ci \<and> col_expr_val ci' = col_expr_val ci \<and>
           (\<forall>c. col_data ci' c =
              (if 0 \<le> c \<and> c < num_cols ci then col_data (fst (col_str_of e c ci st)) c
               else col_data ci c))"
proof -
  let ?st1 = "st\<lparr>col_text := Some [], lines := 1, line_count_changed := False\<rparr>"
  have fd: "fdata ?st1 = (fdata st)\<lparr>color_filter := color_filter (fdata st)\<rparr>" by simp
  have eq: "col_str_of e c ci ?st1 = col_str_of e c ci st" for c
    by (simp add: col_str_of_def)
  have "col_text (snd (ci, ?st1)) = Some []" by simp
  from fold_cache_column_closed [OF assms this, of "[0 .. num_cols ci - 1]"]
  have f: "col_text (snd (fold (cache_column e) [0 .. num_cols ci - 1] (ci, ?st1))) =
             Some (map (\<lambda>c. Some (snd (col_str_of e c ci st))) [0 .. num_cols ci - 1])"
    "\<And>c. col_data (fst (fold (cache_column e) [0 .. num_cols ci - 1] (ci, ?st1))) c =
        (if c \<in> set [0 .. num_cols ci - 1] then col_data (fst (col_str_of e c ci st)) c
         else col_data ci c)"
    by (simp_all add: eq)
  show "texts (snd (cacheColumnStrings e (Some ci) st)) =
           map (\<lambda>c. snd (col_str_of e c ci st)) [0 .. num_cols ci - 1]"
    using f(1) by (simp add: cacheColumnStrings_def Let_def texts_def comp_def)
  show "\<exists>ci'. fst (cacheColumnStrings e (Some ci) st) = Some ci' \<and>
           num_cols ci' = num_cols ci \<and> col_expr_val ci' = col_expr_val ci \<and>
           (\<forall>c. col_data ci' c =
              (if 0 \<le> c \<and> c < num_cols ci then col_data (fst (col_str_of e c ci st)) c
               else col_data ci c))"
    using f(2) by (auto simp: cacheColumnStrings_def Let_def fold_cache_column_num_cols)
qed

lemma col_str_of_state_cong:
  "cinfo_column sa = cinfo_column sb \<Longrightarrow> fdata sa = fdata sb \<Longrightarrow>
   col_str_of e c ci sa = col_str_of e c ci sb"
  by (simp add: col_str_of_def)

lemma col_str_of_again:
  assumes "repeatable e" and "num_cols a = num_cols b" and "col_expr_val a = col_expr_val b"
    and "cinfo_column sa = cinfo_column sb" and "fdata sb = (fdata sa)\<lparr>color_filter := x\<rparr>"
    and "col_data b c = col_data a c \<or> col_data b c = col_data (fst (col_str_of e c a sa)) c"
  shows "snd (col_str_of e c b sb) = snd (col_str_of e c a sa)"
  using assms(3,4,6) repeatable_frame_data [OF assms(1,2,3), where fd = "fdata sa" and x = x]
  by (auto simp: col_str_of_def Let_def write_col_def assms(5) split: option.splits)

lemma dissect_fail_columns:
  assumes "\<not> cf_read_record_r e (fdata st)" and "dissect_columns_of st"
  shows "\<exists>st1. cinfo_column st1 = cinfo_column st \<and> fdata st1 = fdata st \<and>
           texts (snd (dissect e (Some cf) dc st)) =
             texts (snd (cacheColumnStrings e
                     (Some (write_cols (cinfo cf) (col_fill_in_error e (cinfo cf) (fdata st)))) st1)) \<and>
           fst (dissect e (Some cf) dc st) =
             (case fst (cacheColumnStrings e
                     (Some (write_cols (cinfo cf) (col_fill_in_error e (cinfo cf) (fdata st)))) st1) of
                None \<Rightarrow> Some cf | Some ci \<Rightarrow> Some (cf\<lparr>cinfo := ci\<rparr>))"
  apply (rule exI [of _ "(if col_text st = None then st\<lparr>col_text := Some []\<rparr> else st)\<lparr>trace := trace st @ [Read_record]\<rparr>"])
  using assms
  by (simp add: dissect_def Let_def dissect_columns_of_prep dissect_columns_of_empty texts_update
      split: option.split)

lemma error_fill_repeats:
  assumes rep: "repeatable e" and fail: "\<not> cf_read_record_r e (fdata st)"
    and dco: "dissect_columns_of st"
    and cf1: "fst (dissect e (Some cf) dc st) = Some cf1"
    and dco1: "dissect_columns_of (snd (dissect e (Some cf) dc st))"
  shows "\<not> cf_read_record_r e (fdata (snd (dissect e (Some cf) dc st)))"
    and "texts (snd (dissect e (Some cf1) dc' (snd (dissect e (Some cf) dc st))))
           = texts (snd (dissect e (Some cf) dc st))"
proof -
  let ?s1 = "snd (dissect e (Some cf) dc st)"
  let ?E = "col_fill_in_error e (cinfo cf) (fdata st)"
  let ?A = "write_cols (cinfo cf) ?E"
  let ?x = "if dc then None else color_filter (fdata st)"
  have fd1: "fdata ?s1 = (fdata st)\<lparr>color_filter := ?x\<rparr>"
    by (simp add: dissect_fail_fdata [OF fail])
  show fail1: "\<not> cf_read_record_r e (fdata ?s1)"
    using rep fail unfolding fd1 by (simp add: repeatable_def)
  have map1: "cinfo_column ?s1 = cinfo_column st" by (rule dissect_statics)
  obtain st1 where st1: "cinfo_column st1 = cinfo_column st" "fdata st1 = fdata st"
    "texts ?s1 = texts (snd (cacheColumnStrings e (Some ?A) st1))"
    "Some cf1 = (case fst (cacheColumnStrings e (Some ?A) st1) of
                None \<Rightarrow> Some cf | Some ci \<Rightarrow> Some (cf\<lparr>cinfo := ci\<rparr>))"
    using dissect_fail_columns [OF fail dco, of cf dc] cf1 by auto
  obtain ci' where ci': "fst (cacheColumnStrings e (Some ?A) st1) = Some ci'"
    "num_cols ci' = num_cols ?A" "col_expr_val ci' = col_expr_val ?A"
    "\<And>c. col_data ci' c =
        (if 0 \<le> c \<and> c < num_cols ?A then col_data (fst (col_str_of e c ?A st1)) c else col_data ?A c)"
    using cacheColumnStrings_closed(2) [OF rep, of ?A st1] by blast
  have cinfo1: "cinfo cf1 = ci'" using st1(4) ci'(1) by simp
  have n: "num_cols (cinfo cf1) = num_cols (cinfo cf)"
    and x: "col_expr_val (cinfo cf1) = col_expr_val (cinfo cf)"
    using ci'(2,3) by (simp_all add: cinfo1 write_cols_frame)
  have t1: "texts ?s1 = map (\<lambda>c. snd (col_str_of e c ?A st)) [0 .. num_cols (cinfo cf) - 1]"
    unfolding st1(3) cacheColumnStrings_closed(1) [OF rep]
    using col_str_of_state_cong [OF st1(1,2)] by (simp add: write_cols_frame)
  let ?E1 = "col_fill_in_error e (cinfo cf1) (fdata ?s1)"
  let ?B = "write_cols (cinfo cf1) ?E1"
  have E1: "?E1 = ?E"
    unfolding fd1 by (rule repeatable_error [OF rep n [symmetric] x [symmetric]])
  obtain st2 where st2: "cinfo_column st2 = cinfo_column ?s1" "fdata st2 = fdata ?s1"
    "texts (snd (dissect e (Some cf1) dc' ?s1)) = texts (snd (cacheColumnStrings e (Some ?B) st2))"
    using dissect_fail_columns [OF fail1 dco1, of cf1 dc'] by auto
  have t2: "texts (snd (dissect e (Some cf1) dc' ?s1))
            = map (\<lambda>c. snd (col_str_of e c ?B ?s1)) [0 .. num_cols (cinfo cf) - 1]"
    unfolding st2(3) cacheColumnStrings_closed(1) [OF rep]
    using col_str_of_state_cong [OF st2(1,2)] by (simp add: write_cols_frame n)
  have "snd (col_str_of e c ?B ?s1) = snd (col_str_of e c ?A st)"
    if "c \<in> set [0 .. num_cols (cinfo cf) - 1]" for c
  proof (rule col_str_of_again [OF rep _ _ map1 [symmetric] fd1])
    show "num_cols ?A = num_cols ?B" by (simp add: write_cols_frame n)
    show "col_expr_val ?A = col_expr_val ?B" by (simp add: write_cols_frame x)
    have in_range: "0 \<le> c \<and> c < num_cols ?A" using that by (simp add: write_cols_frame)
    have "col_data ci' c = col_data (fst (col_str_of e c ?A st)) c"
      using ci'(4) [of c] in_range col_str_of_state_cong [OF st1(1,2), of e c ?A] by simp
    moreover have "col_data ?B c = (case ?E c of None \<Rightarrow> col_data ci' c | Some s \<Rightarrow> s)"
      unfolding E1 by (simp add: write_cols_def cinfo1)
    moreover have "col_data ?A c = (case ?E c of None \<Rightarrow> col_data (cinfo cf) c | Some s \<Rightarrow> s)"
      by (simp add: write_cols_def)
    ultimately show "col_data ?B c = col_data ?A c \<or> col_data ?B c = col_data (fst (col_str_of e c ?A st)) c"
      by (cases "?E c") simp_all
  qed
  then show "texts (snd (dissect e (Some cf1) dc' ?s1)) = texts ?s1"
    unfolding t1 t2 by (intro map_cong) auto
qed

subsection \<open>Consecutive reads\<close>

lemma value_at_texts:
  "col_text st = Some xs \<Longrightarrow> 0 \<le> c \<Longrightarrow> c < int (length xs) \<Longrightarrow>
   value_at (col_text st) c = texts st ! nat c"
  by (simp add: value_at_def texts_def)

lemma new_record_consistent: "cache_consistent cf (new_record fd)"
  by (simp add: cache_consistent_def new_record_def PacketListRecord_def)

lemma dissect_covers:
  assumes "cache_consistent cf st" and "0 \<le> column" and "column < num_cols (cinfo cf)"
  shows "\<exists>xs. col_text (snd (dissect e (Some cf) dc st)) = Some xs \<and>
              length xs = nat (num_cols (cinfo cf)) \<and> None \<notin> set xs"
proof (cases "dissect_columns_of st")
  case True
  then obtain ss where "length ss = nat (num_cols (cinfo cf))"
      "col_text (snd (dissect e (Some cf) dc st)) = Some (map Some ss)"
    using dissect_columns_texts by blast
  then show ?thesis by auto
next
  case False
  then obtain xs where "col_text st = Some xs" "xs \<noteq> []" "data_ver st = col_data_ver st"
    by (auto simp: dissect_columns_of_def split: option.splits)
  then show ?thesis using assms(1) dissect_keeps_texts [OF False, of e cf dc]
    by (simp add: cache_consistent_def)
qed

lemma columnString_consistent:
  assumes "cache_consistent cf st"
  shows "\<exists>cf'. fst (snd (columnString e (Some cf) column colorize st)) = Some cf' \<and>
           num_cols (cinfo cf') = num_cols (cinfo cf) \<and>
           cache_consistent cf' (snd (snd (columnString e (Some cf) column colorize st)))"
proof (cases "0 \<le> column \<and> column \<le> num_cols (cinfo cf)
              \<and> needs_dissect column (colorize \<and> \<not> colorized st) st")
  case False
  then have "columnString e (Some cf) column colorize st = (fst (columnString e (Some cf) column colorize st), Some cf, st)"
    by (auto simp: columnString_def Let_def)
  then show ?thesis using assms by (metis fst_conv snd_conv)
next
  case True
  let ?dc = "colorize \<and> \<not> colorized st"
  let ?D = "dissect e (Some cf) ?dc st"
  from True have r: "snd (columnString e (Some cf) column colorize st) = ?D"
    by (simp add: columnString_dissect)
  obtain cf' where cf': "fst ?D = Some cf'" "num_cols (cinfo cf') = num_cols (cinfo cf)"
    using dissect_cap_file by blast
  have "cache_consistent cf' (snd ?D)"
  proof (cases "dissect_columns_of st")
    case dco: True
    then obtain ss where "length ss = nat (num_cols (cinfo cf))"
      "col_text (snd ?D) = Some (map Some ss)"
      using dissect_columns_texts by blast
    then show ?thesis using cf'(2) by (auto simp: cache_consistent_def)
  next
    case ndc: False
    then obtain xs where xs: "col_text st = Some xs" "xs \<noteq> []" "data_ver st = col_data_ver st"
      by (auto simp: dissect_columns_of_def split: option.splits)
    have "col_text (snd ?D) = Some xs" using dissect_keeps_texts [OF ndc, of e cf ?dc] xs(1) by simp
    then show ?thesis using assms xs cf'(2) by (simp add: cache_consistent_def)
  qed
  then show ?thesis unfolding r using cf' by simp
qed

subsection \<open>Colouring a current cache\<close>

text \<open>
  On a record whose cache is current, holds every column and is not colourized, a
  read with colouring calls \<^verbatim>\<open>dissect\<close> once (one call to the record source), sets
  \<^verbatim>\<open>colorized_\<close> and keeps the cached texts; after it, a read of any valid column,
  with or without colouring, leaves the record as it is.
\<close>

lemma colorize_current_cache_once:
  assumes "col_text st = Some xs" and "length xs = nat (num_cols (cinfo cf))"
    and "None \<notin> set xs" and "data_ver st = col_data_ver st" and "\<not> colorized st"
    and "0 \<le> c1" and "c1 < num_cols (cinfo cf)"
    and "0 \<le> c2" and "c2 < num_cols (cinfo cf)"
    and "r1 = columnString e (Some cf) c1 True st"
  shows "reads (snd (snd r1)) = reads st + 1 \<and>
         colorized (snd (snd r1)) \<and>
         col_text (snd (snd r1)) = col_text st \<and>
         snd (snd (columnString e (fst (snd r1)) c2 False (snd (snd r1)))) = snd (snd r1) \<and>
         snd (snd (columnString e (fst (snd r1)) c2 True (snd (snd r1)))) = snd (snd r1)"
proof -
  have ne: "xs \<noteq> []" using assms(2,6,7) by auto
  have ndc: "\<not> dissect_columns_of st"
    using assms(1,4) ne by (simp add: dissect_columns_of_def)
  have need: "needs_dissect c1 (True \<and> \<not> colorized st) st"
    using assms(5) by (simp add: needs_dissect_def)
  have le1: "c1 \<le> num_cols (cinfo cf)" using assms(7) by simp
  have r1: "r1 = (value_at (col_text (snd (dissect e (Some cf) True st))) c1, dissect e (Some cf) True st)"
    unfolding assms(10) using columnString_dissect [OF assms(6) le1 need, of e] assms(5) by simp
  let ?s1 = "snd (dissect e (Some cf) True st)"
  have s1: "snd (snd r1) = ?s1" and cf1: "fst (snd r1) = Some cf"
    unfolding r1 by (simp_all add: dissect_keeps_cap_file [OF ndc])
  have ct: "col_text ?s1 = Some xs" using dissect_keeps_texts [OF ndc, of e cf True] assms(1) by simp
  have col: "colorized ?s1" by (simp add: dissect_colorized)
  have dv: "data_ver ?s1 = col_data_ver ?s1"
    using assms(4) by (simp add: dissect_data_ver dissect_statics)
  have i2: "c2 < int (length xs)" using assms(2,8,9) by simp
  then have "xs ! nat c2 \<in> set xs" using assms(8) by simp
  then have n2: "xs ! nat c2 \<noteq> None" using assms(3) by metis
  have no: "\<not> needs_dissect c2 False ?s1"
    by (rule populated_no_dissect [OF ct assms(8) i2 n2 dv])
  have le2: "c2 \<le> num_cols (cinfo cf)" using assms(9) by simp
  have a: "snd (snd (columnString e (Some cf) c2 False ?s1)) = ?s1"
    using columnString_cached [OF assms(8) le2, of False ?s1 e] no by simp
  have b: "snd (snd (columnString e (Some cf) c2 True ?s1)) = ?s1"
    using columnString_cached [OF assms(8) le2, of True ?s1 e] no col by simp
  show ?thesis
    unfolding s1 cf1 using a b ct col assms(1) by (simp add: dissect_reads)
qed

lemma colorize_current_cache_example:
  "\<not> colorized demo_populated \<and>
   reads (snd (snd (columnString (demo_env True) (Some demo_cf) 2 True demo_populated)))
     = reads demo_populated + 1 \<and>
   colorized (snd (snd (columnString (demo_env True) (Some demo_cf) 2 True demo_populated))) \<and>
   snd (snd (columnString (demo_env True)
               (fst (snd (columnString (demo_env True) (Some demo_cf) 2 True demo_populated))) 1 False
               (snd (snd (columnString (demo_env True) (Some demo_cf) 2 True demo_populated)))))
     = snd (snd (columnString (demo_env True) (Some demo_cf) 2 True demo_populated))"
proof -
  have h1: "col_text demo_populated = Some [Some ''1'', Some ''TCP'', Some demo_info]" by code_simp
  have h2: "length [Some ''1'', Some ''TCP'', Some demo_info] = nat (num_cols (cinfo demo_cf))" by code_simp
  have h3: "None \<notin> set [Some ''1'', Some ''TCP'', Some demo_info]" by simp
  have h4: "data_ver demo_populated = col_data_ver demo_populated" by code_simp
  have h5: "\<not> colorized demo_populated" by code_simp
  have h6: "(0::int) \<le> 2" and h8: "(0::int) \<le> 1" by simp_all
  have h7: "2 < num_cols (cinfo demo_cf)" and h9: "1 < num_cols (cinfo demo_cf)" by code_simp+
  show ?thesis
    using colorize_current_cache_once [OF h1 h2 h3 h4 h5 h6 h7 h8 h9 refl, of "demo_env True"] h5
    by simp
qed

section \<open>The claims\<close>

text \<open>
  C1, the claim as stated fails. The example record cannot be read and its info column is
  read without colouring: the call returns the error text, but \<^verbatim>\<open>colorized_\<close> stays
  false, and the same call again goes to the record source a second time.
\<close>

theorem read_failure_counterexample:
  "fst demo_failed = ''Read error'' \<and>
   \<not> colorized (snd (snd demo_failed)) \<and>
   reads (snd (snd demo_failed)) = 1 \<and>
   reads (snd (snd demo_failed_again)) = 2"
  by code_simp

text \<open>
  C1, as amended. A read of a valid column that goes to \<^verbatim>\<open>dissect\<close> and finds the
  record unreadable calls the record source once and the dissector not at all, and
  returns. Colouring: when it was part of the pass (requested and not yet done), the
  colour filter of the frame is cleared and \<^verbatim>\<open>colorized_\<close> is set; otherwise both are
  left as they were. Columns: when they were to be filled, the cache holds one text per
  column, and a column that the error filler wrote, that the map counts as filled by the
  dissector and that has no raw value to show holds the filler's text (the marker, for
  the info column); otherwise the cached texts are kept. When the cache was current and
  held the column before the call, the same call again changes nothing and does not go
  to the record source.
\<close>

theorem read_failure_population:
  assumes "\<not> cf_read_record_r e (fdata st)"
    and "0 \<le> column" and "column < num_cols (cinfo cf)"
    and "needs_dissect column (colorize \<and> \<not> colorized st) st"
    and "r = columnString e (Some cf) column colorize st"
  shows "trace (snd (snd r)) = trace st @ [Read_record] \<and>
         colorized (snd (snd r)) = (colorize \<or> colorized st) \<and>
         fdata (snd (snd r)) =
           (if colorize \<and> \<not> colorized st then (fdata st)\<lparr>color_filter := None\<rparr> else fdata st) \<and>
         (dissect_columns_of st \<longrightarrow>
            length (texts (snd (snd r))) = nat (num_cols (cinfo cf)) \<and>
            (0 \<le> info \<and> info < num_cols (cinfo cf) \<and>
             col_fill_in_error e (cinfo cf) (fdata st) info = Some marker \<and>
             cinfo_column st info = Some j \<and> 0 \<le> j \<and>
             (get_column_resolved e info \<or> col_expr_val (cinfo cf) info = None) \<longrightarrow>
             texts (snd (snd r)) ! nat info = marker)) \<and>
         (\<not> dissect_columns_of st \<longrightarrow> col_text (snd (snd r)) = col_text st) \<and>
         (\<not> needs_dissect column False st \<longrightarrow>
            columnString e (fst (snd r)) column colorize (snd (snd r)) = r)"
proof -
  let ?dc = "colorize \<and> \<not> colorized st"
  let ?s1 = "snd (dissect e (Some cf) ?dc st)"
  have le: "column \<le> num_cols (cinfo cf)" using assms(3) by simp
  have r: "r = (value_at (col_text ?s1) column, dissect e (Some cf) ?dc st)"
    unfolding assms(5) by (rule columnString_dissect [OF assms(2) le assms(4)])
  have s1: "snd (snd r) = ?s1" unfolding r by simp
  have a: "trace ?s1 = trace st @ [Read_record]"
    by (rule dissect_fail_trace [OF assms(1)])
  have b: "colorized ?s1 = (colorize \<or> colorized st)"
    by (auto simp: dissect_colorized)
  have c: "fdata ?s1 = (if ?dc then (fdata st)\<lparr>color_filter := None\<rparr> else fdata st)"
    by (rule dissect_fail_fdata [OF assms(1)])
  have d: "length (texts ?s1) = nat (num_cols (cinfo cf))" if dco: "dissect_columns_of st"
  proof -
    obtain ss where "length ss = nat (num_cols (cinfo cf))" "col_text ?s1 = Some (map Some ss)"
      using dissect_columns_texts [OF dco] by blast
    then show ?thesis by (simp add: texts_Some)
  qed
  have m: "texts ?s1 ! nat info = marker"
    if "dissect_columns_of st" "0 \<le> info" "info < num_cols (cinfo cf)"
       "col_fill_in_error e (cinfo cf) (fdata st) info = Some marker"
       "cinfo_column st info = Some j" "0 \<le> j"
       "get_column_resolved e info \<or> col_expr_val (cinfo cf) info = None"
    by (rule dissect_fail_marker [OF assms(1) that])
  have k: "col_text ?s1 = col_text st" if "\<not> dissect_columns_of st"
    by (rule dissect_keeps_texts [OF that])
  have again: "columnString e (fst (snd r)) column colorize (snd (snd r)) = r"
    if no: "\<not> needs_dissect column False st"
  proof -
    from no have cur: "data_ver st = col_data_ver st"
      and ndc: "\<not> dissect_columns_of st"
      using assms(2) by (auto simp: needs_dissect_def dissect_columns_of_def split: option.splits)
    have cf1: "fst (snd r) = Some cf"
      unfolding r by (simp add: dissect_keeps_cap_file [OF ndc])
    have ct: "col_text ?s1 = col_text st" by (rule dissect_keeps_texts [OF ndc])
    have dv: "data_ver ?s1 = data_ver st" by (rule dissect_fail_data_ver [OF assms(1)])
    have cv: "col_data_ver ?s1 = col_data_ver st" by (rule dissect_statics)
    have col: "colorize \<longrightarrow> colorized ?s1" by (simp add: dissect_colorized)
    have no1: "\<not> needs_dissect column (colorize \<and> \<not> colorized ?s1) ?s1"
      using no col ct dv cv by (auto simp: needs_dissect_def)
    have "columnString e (Some cf) column colorize ?s1 = (value_at (col_text ?s1) column, Some cf, ?s1)"
      by (rule columnString_cached [OF assms(2) le no1])
    also have "\<dots> = r"
      unfolding r using dissect_keeps_cap_file [OF ndc, of e cf ?dc]
      by (simp add: prod_eq_iff)
    finally show ?thesis unfolding cf1 s1 .
  qed
  show ?thesis
    unfolding s1 using a b c d m k again [unfolded s1] by simp
qed

theorem read_failure_population_witness:
  "\<not> cf_read_record_r (demo_env False) (fdata demo_start) \<and>
   dissect_columns_of demo_start \<and>
   trace (snd (snd (columnString (demo_env False) (Some demo_cf) 2 True demo_start))) = [Read_record] \<and>
   colorized (snd (snd (columnString (demo_env False) (Some demo_cf) 2 True demo_start))) \<and>
   color_filter (fdata (snd (snd (columnString (demo_env False) (Some demo_cf) 2 True demo_start)))) = None \<and>
   length (texts (snd (snd (columnString (demo_env False) (Some demo_cf) 2 True demo_start)))) = 3 \<and>
   texts (snd (snd (columnString (demo_env False) (Some demo_cf) 2 True demo_start))) ! nat 2 = ''Read error'' \<and>
   \<not> dissect_columns_of demo_populated \<and>
   \<not> needs_dissect 2 False demo_populated \<and>
   col_text (snd (snd (columnString (demo_env False) (Some demo_cf) 2 True demo_populated)))
     = col_text demo_populated \<and>
   columnString (demo_env False)
     (fst (snd (columnString (demo_env False) (Some demo_cf) 2 True demo_populated))) 2 True
     (snd (snd (columnString (demo_env False) (Some demo_cf) 2 True demo_populated)))
     = columnString (demo_env False) (Some demo_cf) 2 True demo_populated"
proof -
  have f1: "\<not> cf_read_record_r (demo_env False) (fdata demo_start)" by code_simp
  have f2: "\<not> cf_read_record_r (demo_env False) (fdata demo_populated)" by code_simp
  have c0: "(0::int) \<le> 2" by simp
  have c1: "2 < num_cols (cinfo demo_cf)" by code_simp
  have n1: "needs_dissect 2 (True \<and> \<not> colorized demo_start) demo_start" by code_simp
  have n2: "needs_dissect 2 (True \<and> \<not> colorized demo_populated) demo_populated" by code_simp
  have d1: "dissect_columns_of demo_start" by code_simp
  have d2: "\<not> dissect_columns_of demo_populated" by code_simp
  have d3: "\<not> needs_dissect 2 False demo_populated" by code_simp
  have m1: "col_fill_in_error (demo_env False) (cinfo demo_cf) (fdata demo_start) 2 = Some ''Read error''"
    by code_simp
  have m2: "cinfo_column demo_start 2 = Some 1" by code_simp
  have m3: "get_column_resolved (demo_env False) 2" by code_simp
  have v: "\<not> colorized demo_start" "trace demo_start = []" "num_cols (cinfo demo_cf) = 3"
    by code_simp+
  note w1 = read_failure_population [OF f1 c0 c1 n1 refl, of 2 "''Read error''" 1]
  note w2 = read_failure_population [OF f2 c0 c1 n2 refl, of 2 "''Read error''" 1]
  show ?thesis
    using w1 w2 f1 d1 d2 d3 m1 m2 m3 c1 v by simp
qed

text \<open>
  C2, at the column count itself. The example has three columns; a read of column 3 on
  the new record returns the empty text, but it passes the range test of
  \<^verbatim>\<open>columnString\<close> (\<^verbatim>\<open>column > num_cols\<close>), goes to the record source and the
  dissector, and fills the cache.
\<close>

theorem column_count_index_populates:
  "num_cols (cinfo demo_cf) = 3 \<and>
   col_text demo_start = None \<and>
   fst (columnString (demo_env True) (Some demo_cf) 3 False demo_start) = [] \<and>
   col_text (snd (snd (columnString (demo_env True) (Some demo_cf) 3 False demo_start)))
     = Some [Some ''1'', Some ''TCP'', Some demo_info] \<and>
   reads (snd (snd (columnString (demo_env True) (Some demo_cf) 3 False demo_start))) = 1 \<and>
   runs (snd (snd (columnString (demo_env True) (Some demo_cf) 3 False demo_start))) = 1"
  by code_simp

text \<open>
  C3, the claim as stated fails: the example record is populated, the columns are reset
  to the same three columns, and the record is populated again. The line count is 3
  both times, and the flag is set after the second population.
\<close>

theorem line_count_changed_counterexample:
  "lines demo_populated = 3 \<and> lines demo_repopulated = 3 \<and> line_count_changed demo_repopulated"
  by code_simp

text \<open>
  C3, as amended. \<^verbatim>\<open>cacheColumnStrings\<close> resets \<^verbatim>\<open>lines_\<close> to 1 before the loop and
  sets \<^verbatim>\<open>line_count_changed_\<close> whenever a column raises it: after a population the
  flag is true exactly when the new line count is greater than 1, whatever the line
  count was before.
\<close>

theorem line_count_changed_iff_multiline:
  "line_count_changed (snd (cacheColumnStrings e (Some ci) st)) =
     (1 < lines (snd (cacheColumnStrings e (Some ci) st)))"
  by (rule cacheColumnStrings_changed)

text \<open>
  C4. After a population the cache holds one text per column and \<^verbatim>\<open>lines_\<close> is the
  greatest, over these texts, of the number of newline characters plus one (and 1 when
  there is no column). A new record has one line, and no operation brings the line count
  below 1.
\<close>

theorem line_count_is_max:
  "lines (new_record fd) = 1 \<and>
   length (texts (snd (cacheColumnStrings e (Some ci) st))) = nat (num_cols ci) \<and>
   lines (snd (cacheColumnStrings e (Some ci) st)) =
     (if texts (snd (cacheColumnStrings e (Some ci) st)) = [] then 1
      else Max ((\<lambda>t. int (count_list t newline) + 1) ` set (texts (snd (cacheColumnStrings e (Some ci) st))))) \<and>
   (1 \<le> lines st \<longrightarrow>
      1 \<le> lines (snd (snd (columnString e cap_file column colorize st))) \<and>
      1 \<le> lines (resetColumns e cinfo_ptr st) \<and>
      1 \<le> lines (resetColorized st))"
proof -
  obtain ss where ss: "length ss = nat (num_cols ci)"
      "col_text (snd (cacheColumnStrings e (Some ci) st)) = Some (map Some ss)"
      "lines (snd (cacheColumnStrings e (Some ci) st)) = Max (insert 1 (col_lines_of ` set ss))"
    using cacheColumnStrings_texts by blast
  have t: "texts (snd (cacheColumnStrings e (Some ci) st)) = ss"
    using ss(2) by (rule texts_Some)
  have f: "col_lines_of = (\<lambda>t. int (count_list t newline) + 1)"
    by (rule ext) (simp add: col_lines_of_def)
  have a: "lines (new_record fd) = 1"
    by (simp add: new_record_def PacketListRecord_def)
  have b: "lines (snd (cacheColumnStrings e (Some ci) st)) =
     (if ss = [] then 1 else Max ((\<lambda>t. int (count_list t newline) + 1) ` set ss))"
    using Max_col_lines [of ss] unfolding ss(3) f by simp
  have c: "lines (resetColumns e cinfo_ptr st) = lines st"
    by (simp add: resetColumns_def invalidateAllRecords_def Let_def split: option.split)
  have d: "lines (resetColorized st) = lines st"
    by (simp add: resetColorized_def)
  show ?thesis
    unfolding t using a b ss(1) c d columnString_lines_ge1 [of st e cap_file column colorize]
    by simp
qed

theorem line_count_is_max_witness:
  "lines (snd (cacheColumnStrings (demo_env True) (Some demo_parsed_ci) demo_start)) = 3 \<and>
   texts (snd (cacheColumnStrings (demo_env True) (Some demo_parsed_ci) demo_start)) = [''1'', ''TCP'', demo_info] \<and>
   count_list demo_info newline = 2 \<and>
   1 \<le> lines demo_start \<and>
   1 \<le> lines (snd (snd (columnString (demo_env True) (Some demo_cf) 2 False demo_start))) \<and>
   1 \<le> lines (resetColumns (demo_env True) (Some demo_ci) demo_start) \<and>
   1 \<le> lines (resetColorized demo_start)"
proof -
  have h: "1 \<le> lines demo_start" by code_simp
  have v: "lines (snd (cacheColumnStrings (demo_env True) (Some demo_parsed_ci) demo_start)) = 3"
    by code_simp
  have t: "texts (snd (cacheColumnStrings (demo_env True) (Some demo_parsed_ci) demo_start)) = [''1'', ''TCP'', demo_info]"
    by code_simp
  have n: "count_list demo_info newline = 2" by code_simp
  show ?thesis
    using line_count_is_max [of demo_fd "demo_env True" demo_parsed_ci demo_start
        "Some demo_cf" 2 False "Some demo_ci"] h v t n
    by simp
qed

text \<open>
  C5, on a record that cannot be read. The first read of the info column, without
  colouring, fills the cache with the error texts; the read with colouring that follows
  calls \<^verbatim>\<open>dissect\<close> once and sets \<^verbatim>\<open>colorized_\<close>. The failure path of
  \<^verbatim>\<open>dissect\<close> returns before \<^verbatim>\<open>data_ver_ = col_data_ver_\<close>, so the stamp is
  still stale, and the read without colouring that comes next goes to \<^verbatim>\<open>dissect\<close>
  and to the record source again: three reads of the record in three calls.
\<close>

theorem colorize_downgrade_rereads_after_failure:
  "texts (snd (snd demo_failed)) = [''1'', ''???'', ''Read error''] \<and>
   \<not> colorized (snd (snd demo_failed)) \<and>
   reads (snd (snd demo_failed)) = 1 \<and>
   colorized (snd (snd demo_failed_upgrade)) \<and>
   reads (snd (snd demo_failed_upgrade)) = 2 \<and>
   data_ver (snd (snd demo_failed_upgrade)) = 0 \<and>
   col_data_ver (snd (snd demo_failed_upgrade)) = 2 \<and>
   colorized (snd (snd demo_failed_downgrade)) \<and>
   reads (snd (snd demo_failed_downgrade)) = 3"
  by code_simp

text \<open>
  C6. Two reads of the same valid column with the same colouring flag, one right after
  the other on the capture file as the first read left it, return the same text, and the
  dissector runs at most once in the two calls. The record may be in any state in which
  the cache is consistent with the descriptor; the external functions are repeatable.
\<close>

theorem consecutive_reads_agree:
  assumes rep: "repeatable e" and inv: "cache_consistent cf st"
    and c0: "0 \<le> column" and c1: "column < num_cols (cinfo cf)"
    and r1: "r1 = columnString e (Some cf) column colorize st"
    and r2: "r2 = columnString e (fst (snd r1)) column colorize (snd (snd r1))"
  shows "fst r2 = fst r1 \<and> runs (snd (snd r2)) \<le> runs st + 1"
proof (cases "needs_dissect column (colorize \<and> \<not> colorized st) st")
  case False
  have le: "column \<le> num_cols (cinfo cf)" using c1 by simp
  have "r1 = (value_at (col_text st) column, Some cf, st)"
    unfolding r1 by (rule columnString_cached [OF c0 le False])
  then have "r2 = r1" unfolding r2 using r1 by simp
  then show ?thesis using \<open>r1 = (value_at (col_text st) column, Some cf, st)\<close> by simp
next
  case need: True
  let ?dc = "colorize \<and> \<not> colorized st"
  let ?D = "dissect e (Some cf) ?dc st"
  let ?s1 = "snd ?D"
  have le: "column \<le> num_cols (cinfo cf)" using c1 by simp
  have r1': "r1 = (value_at (col_text ?s1) column, ?D)"
    unfolding r1 by (rule columnString_dissect [OF c0 le need])
  obtain cf1 where cf1: "fst ?D = Some cf1" "num_cols (cinfo cf1) = num_cols (cinfo cf)"
    using dissect_cap_file by blast
  have le1: "column \<le> num_cols (cinfo cf1)" using c1 cf1(2) by simp
  obtain xs where xs: "col_text ?s1 = Some xs" "length xs = nat (num_cols (cinfo cf))" "None \<notin> set xs"
    using dissect_covers [OF inv c0 c1] by blast
  have i: "column < int (length xs)" using xs(2) c0 c1 by simp
  then have "xs ! nat column \<in> set xs" using c0 by simp
  then have nn: "xs ! nat column \<noteq> None" using xs(3) by metis
  have col: "(colorize \<and> \<not> colorized ?s1) = False" by (simp add: dissect_colorized)
  have runs1: "runs ?s1 = runs st + (if cf_read_record_r e (fdata st) then 1 else 0)"
    by (rule dissect_runs)
  have r2': "r2 = columnString e (Some cf1) column colorize ?s1"
    unfolding r2 r1' using cf1(1) by simp
  show ?thesis
  proof (cases "data_ver ?s1 = col_data_ver ?s1")
    case True
    have no: "\<not> needs_dissect column False ?s1"
      by (rule populated_no_dissect [OF xs(1) c0 i nn True])
    have "\<not> needs_dissect column (colorize \<and> \<not> colorized ?s1) ?s1"
      unfolding col by (rule no)
    then have "r2 = (value_at (col_text ?s1) column, Some cf1, ?s1)"
      unfolding r2' by (rule columnString_cached [OF c0 le1])
    then show ?thesis using r1' runs1 by simp
  next
    case stale1: False
    have fail: "\<not> cf_read_record_r e (fdata st)"
      using stale1 by (auto simp: dissect_data_ver dissect_statics)
    have stale: "data_ver st \<noteq> col_data_ver st"
      using stale1 fail by (simp add: dissect_data_ver dissect_statics)
    have dco: "dissect_columns_of st" using stale by (simp add: dissect_columns_of_def)
    have dco1: "dissect_columns_of ?s1" using stale1 by (simp add: dissect_columns_of_def)
    have need2: "needs_dissect column (colorize \<and> \<not> colorized ?s1) ?s1"
      using stale1 by (simp add: needs_dissect_def)
    let ?D2 = "dissect e (Some cf1) (colorize \<and> \<not> colorized ?s1) ?s1"
    have r2'': "r2 = (value_at (col_text (snd ?D2)) column, ?D2)"
      unfolding r2' by (rule columnString_dissect [OF c0 le1 need2])
    have fail1: "\<not> cf_read_record_r e (fdata ?s1)"
      and same: "texts (snd ?D2) = texts ?s1"
      using error_fill_repeats [OF rep fail dco cf1(1) dco1] by simp_all
    obtain ss where ss: "length ss = nat (num_cols (cinfo cf1))" "col_text (snd ?D2) = Some (map Some ss)"
      using dissect_columns_texts [OF dco1] by blast
    have i2: "column < int (length (map Some ss))" using ss(1) cf1(2) c0 c1 by simp
    have v2: "value_at (col_text (snd ?D2)) column = texts (snd ?D2) ! nat column"
      by (rule value_at_texts [OF ss(2) c0 i2])
    have v1: "value_at (col_text ?s1) column = texts ?s1 ! nat column"
      by (rule value_at_texts [OF xs(1) c0 i])
    have runs2: "runs (snd ?D2) = runs ?s1"
      using fail1 by (simp add: dissect_runs)
    show ?thesis
      unfolding r2'' r1' using v1 v2 same runs2 runs1 fail by simp
  qed
qed

theorem consecutive_reads_agree_witness:
  "repeatable (demo_env True) \<and> repeatable (demo_env False) \<and>
   cache_consistent demo_cf demo_start \<and>
   fst (columnString (demo_env True)
          (fst (snd (columnString (demo_env True) (Some demo_cf) 2 True demo_start))) 2 True
          (snd (snd (columnString (demo_env True) (Some demo_cf) 2 True demo_start))))
     = fst (columnString (demo_env True) (Some demo_cf) 2 True demo_start) \<and>
   fst (columnString (demo_env True) (Some demo_cf) 2 True demo_start) = demo_info \<and>
   runs (snd (snd (columnString (demo_env True)
          (fst (snd (columnString (demo_env True) (Some demo_cf) 2 True demo_start))) 2 True
          (snd (snd (columnString (demo_env True) (Some demo_cf) 2 True demo_start)))))) \<le> 1 \<and>
   fst demo_failed_again = fst demo_failed \<and>
   runs (snd (snd demo_failed_again)) \<le> 1"
proof -
  have p1: "repeatable (demo_env True)" and p2: "repeatable (demo_env False)"
    by (simp_all add: repeatable_def demo_env_def)
  have i: "cache_consistent demo_cf demo_start" by code_simp
  have c0: "(0::int) \<le> 2" by simp
  have c1: "2 < num_cols (cinfo demo_cf)" by code_simp
  have v: "runs demo_start = 0" "fst (columnString (demo_env True) (Some demo_cf) 2 True demo_start) = demo_info"
    by code_simp+
  note w1 = consecutive_reads_agree [OF p1 i c0 c1 refl refl, of True]
  note w2 = consecutive_reads_agree [OF p2 i c0 c1 refl refl, of False]
  show ?thesis
    using w1 w2 p1 p2 i v by (simp add: demo_failed_again_def demo_failed_def)
qed




text \<open>
  C9. For every record, \<^verbatim>\<open>resetColorized\<close> clears \<^verbatim>\<open>colorized_\<close> and leaves every
  other member, the frame data, the static members, the pool and the log as they are.
  It does not change whether a read without colouring goes to \<^verbatim>\<open>dissect\<close>, and
  after it every read with colouring does. On a record whose cache is current and holds
  the column, the next read without colouring therefore changes nothing, and the next
  read with colouring goes to the record source once.
\<close>

theorem resetColorized_only_flag:
  "\<not> colorized (resetColorized st) \<and>
   col_text (resetColorized st) = col_text st \<and>
   lines (resetColorized st) = lines st \<and>
   line_count_changed (resetColorized st) = line_count_changed st \<and>
   data_ver (resetColorized st) = data_ver st \<and>
   conv (resetColorized st) = conv st \<and>
   fdata (resetColorized st) = fdata st \<and>
   col_data_ver (resetColorized st) = col_data_ver st \<and>
   cinfo_column (resetColorized st) = cinfo_column st \<and>
   string_cache_pool (resetColorized st) = string_cache_pool st \<and>
   trace (resetColorized st) = trace st \<and>
   needs_dissect column (False \<and> \<not> colorized (resetColorized st)) (resetColorized st)
     = needs_dissect column False st \<and>
   needs_dissect column (True \<and> \<not> colorized (resetColorized st)) (resetColorized st) \<and>
   (col_text st = Some xs \<and> 0 \<le> column \<and> column < int (length xs) \<and>
    xs ! nat column \<noteq> None \<and> data_ver st = col_data_ver st \<and>
    column \<le> num_cols (cinfo cf) \<longrightarrow>
      snd (snd (columnString e (Some cf) column False (resetColorized st))) = resetColorized st \<and>
      reads (snd (snd (columnString e (Some cf) column True (resetColorized st)))) = reads st + 1)"
proof -
  let ?r = "resetColorized st"
  have frame: "\<not> colorized ?r" "col_text ?r = col_text st" "lines ?r = lines st"
    "line_count_changed ?r = line_count_changed st" "data_ver ?r = data_ver st"
    "conv ?r = conv st" "fdata ?r = fdata st" "col_data_ver ?r = col_data_ver st"
    "cinfo_column ?r = cinfo_column st" "string_cache_pool ?r = string_cache_pool st"
    "trace ?r = trace st"
    by (simp_all add: resetColorized_def)
  have same: "needs_dissect column (False \<and> \<not> colorized ?r) ?r = needs_dissect column False st"
    by (simp add: needs_dissect_def resetColorized_def)
  have yes: "needs_dissect column (True \<and> \<not> colorized ?r) ?r"
    by (simp add: needs_dissect_def resetColorized_def)
  have beh: "snd (snd (columnString e (Some cf) column False ?r)) = ?r \<and>
             reads (snd (snd (columnString e (Some cf) column True ?r))) = reads st + 1"
    if h: "col_text st = Some xs \<and> 0 \<le> column \<and> column < int (length xs) \<and>
           xs ! nat column \<noteq> None \<and> data_ver st = col_data_ver st \<and>
           column \<le> num_cols (cinfo cf)"
  proof -
    from h have ct: "col_text st = Some xs" and c0: "0 \<le> column"
      and c1: "column < int (length xs)" and nn: "xs ! nat column \<noteq> None"
      and dv: "data_ver st = col_data_ver st" and le: "column \<le> num_cols (cinfo cf)"
      by simp_all
    have "\<not> needs_dissect column False st"
      by (rule populated_no_dissect [OF ct c0 c1 nn dv])
    then have no: "\<not> needs_dissect column (False \<and> \<not> colorized ?r) ?r"
      unfolding same .
    have a: "snd (snd (columnString e (Some cf) column False ?r)) = ?r"
      using columnString_cached [OF c0 le no, of e] by simp
    have b: "reads (snd (snd (columnString e (Some cf) column True ?r))) = reads ?r + 1"
      using columnString_dissect [OF c0 le yes, of e] by (simp add: dissect_reads)
    have c: "reads ?r = reads st" by (simp add: reads_def resetColorized_def)
    show ?thesis using a b c by simp
  qed
  show ?thesis using frame same yes beh by blast
qed

theorem resetColorized_only_flag_witness:
  "colorized demo_colorized \<and>
   \<not> colorized (resetColorized demo_colorized) \<and>
   resetColorized demo_colorized \<noteq> demo_colorized \<and>
   col_text (resetColorized demo_colorized) = col_text demo_colorized \<and>
   lines (resetColorized demo_colorized) = lines demo_colorized \<and>
   data_ver (resetColorized demo_colorized) = data_ver demo_colorized \<and>
   col_data_ver (resetColorized demo_colorized) = col_data_ver demo_colorized \<and>
   data_ver demo_colorized = col_data_ver demo_colorized \<and>
   snd (snd (columnString (demo_env True) (Some demo_cf) 2 False (resetColorized demo_colorized)))
     = resetColorized demo_colorized \<and>
   reads (snd (snd (columnString (demo_env True) (Some demo_cf) 2 True (resetColorized demo_colorized))))
     = reads demo_colorized + 1 \<and>
   colorized demo_colorized_stale \<and>
   data_ver demo_colorized_stale \<noteq> col_data_ver demo_colorized_stale \<and>
   \<not> colorized (resetColorized demo_colorized_stale) \<and>
   col_text (resetColorized demo_colorized_stale) = col_text demo_colorized_stale \<and>
   lines (resetColorized demo_colorized_stale) = lines demo_colorized_stale \<and>
   data_ver (resetColorized demo_colorized_stale) = data_ver demo_colorized_stale \<and>
   col_data_ver (resetColorized demo_colorized_stale) = col_data_ver demo_colorized_stale"
proof -
  have c: "colorized demo_colorized" by code_simp
  have h1: "col_text demo_colorized = Some [Some ''1'', Some ''TCP'', Some demo_info]"
    by code_simp
  have h3: "(2::int) < int (length [Some ''1'', Some ''TCP'', Some demo_info])" by simp
  have h4: "[Some ''1'', Some ''TCP'', Some demo_info] ! nat 2 \<noteq> None" by code_simp
  have h5: "data_ver demo_colorized = col_data_ver demo_colorized" by code_simp
  have h6: "2 \<le> num_cols (cinfo demo_cf)" by code_simp
  have s: "colorized demo_colorized_stale"
    "data_ver demo_colorized_stale \<noteq> col_data_ver demo_colorized_stale"
    by code_simp+
  note w1 = resetColorized_only_flag
    [of demo_colorized 2 "[Some ''1'', Some ''TCP'', Some demo_info]" demo_cf "demo_env True"]
  note w2 = resetColorized_only_flag
    [of demo_colorized_stale 2 "[Some ''1'', Some ''TCP'', Some demo_info]" demo_cf "demo_env True"]
  have ne: "resetColorized demo_colorized \<noteq> demo_colorized"
    using c w1 by auto
  show ?thesis
    using w1 w2 c h1 h3 h4 h5 h6 s ne by simp
qed

text \<open>
  C10. \<^verbatim>\<open>resetColumns\<close> with a null descriptor returns right after
  \<^verbatim>\<open>invalidateAllRecords\<close>: the version changes, so a record that was current is stale
  and its next read goes to \<^verbatim>\<open>dissect\<close>; the map \<^verbatim>\<open>cinfo_column_\<close> is the one from
  before the call, and the loop of \<^verbatim>\<open>cacheColumnStrings\<close> chooses between frame data
  and dissector text as it did before.
\<close>

theorem resetColumns_null_keeps_map:
  "cinfo_column (resetColumns e None st) = cinfo_column st \<and>
   col_data_ver (resetColumns e None st) = col_data_ver st + 1 \<and>
   col_data_ver (resetColumns e None st) \<noteq> col_data_ver st \<and>
   data_ver (resetColumns e None st) = data_ver st \<and>
   col_text (resetColumns e None st) = col_text st \<and>
   col_str_of e column ci (resetColumns e None st) = col_str_of e column ci st \<and>
   (data_ver st = col_data_ver st \<longrightarrow> needs_dissect column dissect_color (resetColumns e None st))"
  by (simp add: resetColumns_def invalidateAllRecords_def col_str_of_def needs_dissect_def)

theorem resetColumns_null_keeps_map_witness:
  "cinfo_column (resetColumns (demo_env True) None demo_populated) = cinfo_column demo_populated \<and>
   col_data_ver (resetColumns (demo_env True) None demo_populated) = 3 \<and>
   data_ver demo_populated = col_data_ver demo_populated \<and>
   needs_dissect 2 False (resetColumns (demo_env True) None demo_populated)"
proof -
  have h: "data_ver demo_populated = col_data_ver demo_populated" by code_simp
  have v: "col_data_ver demo_populated = 2" by code_simp
  show ?thesis
    using resetColumns_null_keeps_map [of "demo_env True" demo_populated 2 demo_ci False] h v
    by simp
qed

end
